theory Spec2Isabelle
  imports Main "HOL-Library.AList"
begin

section \<open>The ban manager of \<^verbatim>\<open>src/banman.cpp\<close>\<close>

text \<open>
  A shallow embedding of \<^verbatim>\<open>BanMan\<close>. The object's members are the fields of a
  record that every member function takes and returns. Each \<^verbatim>\<open>std::map\<close> is an
  association list with one pair per key: \<^verbatim>\<open>find\<close> is \<open>map_of\<close>, assignment
  through \<^verbatim>\<open>operator[]\<close> is \<open>AList.update\<close>, \<^verbatim>\<open>erase\<close> is \<open>AList.delete\<close>.
  The lists are in insertion order where the C++ map iterates in key order; the order
  shows only in the order of the pairs of an exported list, never in what a key maps to
  or in what a query returns.

  Times are \<^verbatim>\<open>int64_t\<close> seconds, modelled as \<open>int\<close>. The code compares them and
  adds them once, in line 170; that sum is taken in 64 bits (\<open>int64_wrap\<close>). Every
  operation takes the clock reading \<open>now\<close> as an argument and uses it for each
  \<^verbatim>\<open>GetTime()\<close> of the call.

  The mutex \<^verbatim>\<open>m_cs_banned\<close> is not modelled: the embedding describes one call at a
  time.
\<close>

subsection \<open>Ban entries and keys\<close>

datatype BanReason = BanReasonUnknown | BanReasonNodeMisbehaving | BanReasonManuallyAdded

text \<open>
  Modelled from the spec: \<^verbatim>\<open>CBanEntry\<close> is declared in \<^verbatim>\<open>addrdb.h\<close>, which is
  not among the sources. The spec gives a ban record a creation time, an expiry time and
  a reason.
\<close>

record CBanEntry =
  nCreateTime :: int
  nBanUntil :: int
  banReason :: BanReason

text \<open>
  Modelled from the spec: the default-constructed \<^verbatim>\<open>CBanEntry\<close>, which
  \<^verbatim>\<open>operator[]\<close> stores for a key the map does not hold. The spec: an absent entry
  behaves as \<^verbatim>\<open>{bannedUntil: 0, reason: Unknown}\<close>.
\<close>

definition CBanEntry_null :: CBanEntry where
  "CBanEntry_null = \<lparr>nCreateTime = 0, nBanUntil = 0, banReason = BanReasonUnknown\<rparr>"

text \<open>
  Modelled from the spec: \<^verbatim>\<open>CNetAddr\<close> and \<^verbatim>\<open>CSubNet\<close> are declared in
  \<^verbatim>\<open>netaddress.h\<close>, which is not among the sources. An address is a value of an
  arbitrary type \<open>'a\<close>. A ban key is either a single address (what \<^verbatim>\<open>CSubNet(addr)\<close>
  builds and \<^verbatim>\<open>IsSingleAddr\<close> recognises) or a range named by a value of type
  \<open>'n\<close>; which addresses a range contains is a parameter \<open>contains\<close> of the queries.
\<close>

datatype ('a, 'n) CSubNet = SingleAddr 'a | Range 'n

fun IsSingleAddr :: "('a, 'n) CSubNet \<Rightarrow> 'a option" where
  "IsSingleAddr (SingleAddr a) = Some a"
| "IsSingleAddr (Range n) = None"

fun Match :: "('n \<Rightarrow> 'a \<Rightarrow> bool) \<Rightarrow> ('a, 'n) CSubNet \<Rightarrow> 'a \<Rightarrow> bool" where
  "Match contains (SingleAddr b) a = (a = b)"
| "Match contains (Range n) a = contains n a"

type_synonym ('a, 'n) banmap_t = "(('a, 'n) CSubNet \<times> CBanEntry) list"

subsection \<open>The ring of misbehaving addresses\<close>

text \<open>
  Modelled from the spec: \<^verbatim>\<open>m_misbehaving_addrs\<close> is declared in \<^verbatim>\<open>banman.h\<close>,
  which is not among the sources. The spec (4.1): a fixed-capacity FIFO of addresses;
  \<^verbatim>\<open>push\<close> on a full ring evicts the front (oldest) address and appends the new one;
  \<^verbatim>\<open>remove\<close> removes the first matching occurrence and does nothing when there is
  none. Setting the capacity keeps the oldest elements that still fit.
\<close>

record 'a circular_buffer =
  cb_capacity :: nat
  cb_items :: "'a list"

definition cb_set_capacity :: "nat \<Rightarrow> 'a circular_buffer \<Rightarrow> 'a circular_buffer" where
  "cb_set_capacity n r = \<lparr>cb_capacity = n, cb_items = take n (cb_items r)\<rparr>"

definition cb_full :: "'a circular_buffer \<Rightarrow> bool" where
  "cb_full r = (length (cb_items r) = cb_capacity r)"

definition cb_push_back :: "'a \<Rightarrow> 'a circular_buffer \<Rightarrow> 'a circular_buffer" where
  "cb_push_back x r =
     (if cb_capacity r = 0 then r
      else if cb_full r then r\<lparr>cb_items := tl (cb_items r) @ [x]\<rparr>
      else r\<lparr>cb_items := cb_items r @ [x]\<rparr>)"

definition cb_erase_find :: "'a \<Rightarrow> 'a circular_buffer \<Rightarrow> 'a circular_buffer" where
  "cb_erase_find x r = r\<lparr>cb_items := remove1 x (cb_items r)\<rparr>"

definition cb_clear :: "'a circular_buffer \<Rightarrow> 'a circular_buffer" where
  "cb_clear r = r\<lparr>cb_items := []\<rparr>"

subsection \<open>The manager's state\<close>

datatype UIEvent = InitMessage | BannedListChanged

text \<open>
  The members of \<^verbatim>\<open>BanMan\<close>, and the two collaborators it calls. \<open>m_client_interface\<close>
  says whether the pointer is non-null; \<open>ui_events\<close> lists the calls made through it.
  Modelled from the spec: \<^verbatim>\<open>CBanDB\<close> (\<^verbatim>\<open>addrdb.cpp\<close>) is not among the sources.
  \<open>db_file\<close> is what the store holds (\<open>None\<close>: missing or corrupt, \<^verbatim>\<open>Read\<close> fails);
  \<open>db_writes\<close> lists every snapshot handed to \<^verbatim>\<open>Write\<close>. Whether a write succeeds
  is decided outside the manager: the argument \<open>write_ok\<close> of the operations that flush.
  A failed write leaves the store as it was.
\<close>

record ('a, 'n) BanMan =
  m_banned_addrs :: "('a \<times> CBanEntry) list"
  m_banned_subnets :: "('a, 'n) banmap_t"
  m_misbehaving_addrs :: "'a circular_buffer"
  m_is_dirty :: bool
  m_default_ban_time :: int
  m_client_interface :: bool
  ui_events :: "UIEvent list"
  db_file :: "('a, 'n) banmap_t option"
  db_writes :: "('a, 'n) banmap_t list"

definition BannedListChanged_signal :: "('a, 'n) BanMan \<Rightarrow> ('a, 'n) BanMan" where
  "BannedListChanged_signal st =
     (if m_client_interface st then st\<lparr>ui_events := ui_events st @ [BannedListChanged]\<rparr>
      else st)"

definition SetMisbehavingLimit :: "nat \<Rightarrow> ('a, 'n) BanMan \<Rightarrow> ('a, 'n) BanMan" where
  "SetMisbehavingLimit limit st =
     st\<lparr>m_misbehaving_addrs := cb_set_capacity limit (m_misbehaving_addrs st)\<rparr>"

definition SetBannedSetDirty :: "bool \<Rightarrow> ('a, 'n) BanMan \<Rightarrow> ('a, 'n) BanMan" where
  "SetBannedSetDirty dirty st = st\<lparr>m_is_dirty := dirty\<rparr>"

definition BannedSetIsDirty :: "('a, 'n) BanMan \<Rightarrow> bool" where
  "BannedSetIsDirty st = m_is_dirty st"

subsection \<open>SweepBanned\<close>

text \<open>
  Both loops of \<^verbatim>\<open>SweepBanned\<close> walk a map and erase the entries with
  \<^verbatim>\<open>now > nBanUntil\<close>. \<open>sweep_entries\<close> returns what is left and whether anything was
  erased (the loops set \<^verbatim>\<open>m_is_dirty\<close> and \<^verbatim>\<open>notify_ui\<close> then).
\<close>

fun sweep_entries :: "int \<Rightarrow> ('k \<times> CBanEntry) list \<Rightarrow> ('k \<times> CBanEntry) list \<times> bool" where
  "sweep_entries now [] = ([], False)"
| "sweep_entries now ((k, ban_entry) # rest) =
     (if now > nBanUntil ban_entry then (fst (sweep_entries now rest), True)
      else ((k, ban_entry) # fst (sweep_entries now rest), snd (sweep_entries now rest)))"

definition SweepBanned :: "int \<Rightarrow> ('a, 'n) BanMan \<Rightarrow> ('a, 'n) BanMan" where
  "SweepBanned now st =
     (let subnets = sweep_entries now (m_banned_subnets st);
          addrs = sweep_entries now (m_banned_addrs st);
          notify_ui = (snd subnets \<or> snd addrs);
          st1 = st\<lparr>m_banned_subnets := fst subnets, m_banned_addrs := fst addrs,
                   m_is_dirty := (m_is_dirty st \<or> notify_ui)\<rparr>
      in if notify_ui then BannedListChanged_signal st1 else st1)"

subsection \<open>GetBanned, SetBanned, DumpBanlist, ClearBanned\<close>

definition merge_banned :: "('a \<times> CBanEntry) list \<Rightarrow> ('a, 'n) banmap_t \<Rightarrow> ('a, 'n) banmap_t" where
  "merge_banned addrs subnets =
     fold (\<lambda>addr_pair banmap. AList.update (SingleAddr (fst addr_pair)) (snd addr_pair) banmap)
       addrs subnets"

definition GetBanned :: "int \<Rightarrow> ('a, 'n) BanMan \<Rightarrow> ('a, 'n) banmap_t \<times> ('a, 'n) BanMan" where
  "GetBanned now st =
     (let st1 = SweepBanned now st
      in (merge_banned (m_banned_addrs st1) (m_banned_subnets st1), st1))"

fun SetBanned_loop ::
  "('a, 'n) banmap_t \<Rightarrow> ('a \<times> CBanEntry) list \<times> ('a, 'n) banmap_t
     \<Rightarrow> ('a \<times> CBanEntry) list \<times> ('a, 'n) banmap_t" where
  "SetBanned_loop [] maps = maps"
| "SetBanned_loop ((sub_net, ban_entry) # rest) (addrs, subnets) =
     (case IsSingleAddr sub_net of
        Some addr \<Rightarrow> SetBanned_loop rest (AList.update addr ban_entry addrs, subnets)
      | None \<Rightarrow> SetBanned_loop rest (addrs, AList.update sub_net ban_entry subnets))"

definition SetBanned :: "('a, 'n) banmap_t \<Rightarrow> ('a, 'n) BanMan \<Rightarrow> ('a, 'n) BanMan" where
  "SetBanned banmap st =
     (let maps = SetBanned_loop banmap ([], [])
      in st\<lparr>m_banned_addrs := fst maps, m_banned_subnets := snd maps, m_is_dirty := True\<rparr>)"

definition DumpBanlist :: "bool \<Rightarrow> int \<Rightarrow> ('a, 'n) BanMan \<Rightarrow> ('a, 'n) BanMan" where
  "DumpBanlist write_ok now st =
     (let st1 = SweepBanned now st
      in if \<not> BannedSetIsDirty st1 then st1
         else
           let got = GetBanned now st1;
               banmap = fst got;
               st2 = (snd got)\<lparr>db_writes := db_writes (snd got) @ [banmap]\<rparr>
           in if write_ok then SetBannedSetDirty False (st2\<lparr>db_file := Some banmap\<rparr>)
              else st2)"

definition ClearBanned :: "bool \<Rightarrow> int \<Rightarrow> ('a, 'n) BanMan \<Rightarrow> ('a, 'n) BanMan" where
  "ClearBanned write_ok now st =
     BannedListChanged_signal
       (DumpBanlist write_ok now
          (st\<lparr>m_banned_addrs := [],
              m_misbehaving_addrs := cb_clear (m_misbehaving_addrs st),
              m_banned_subnets := [],
              m_is_dirty := True\<rparr>))"

subsection \<open>The constructor and the destructor\<close>

definition BanMan_new ::
  "('a, 'n) banmap_t option \<Rightarrow> bool \<Rightarrow> int \<Rightarrow> bool \<Rightarrow> int \<Rightarrow> ('a, 'n) BanMan" where
  "BanMan_new ban_file client_interface default_ban_time write_ok now =
     (let st0 = \<lparr>m_banned_addrs = [], m_banned_subnets = [],
                 m_misbehaving_addrs = \<lparr>cb_capacity = 0, cb_items = []\<rparr>,
                 m_is_dirty = False,
                 m_default_ban_time = default_ban_time,
                 m_client_interface = client_interface,
                 ui_events = (if client_interface then [InitMessage] else []),
                 db_file = ban_file, db_writes = []\<rparr>
      in case db_file st0 of
           Some banmap \<Rightarrow> SweepBanned now (SetBannedSetDirty False (SetBanned banmap st0))
         | None \<Rightarrow> DumpBanlist write_ok now (SetBannedSetDirty True st0))"

definition BanMan_delete :: "bool \<Rightarrow> int \<Rightarrow> ('a, 'n) BanMan \<Rightarrow> ('a, 'n) BanMan" where
  "BanMan_delete write_ok now st = DumpBanlist write_ok now st"

subsection \<open>Queries\<close>

fun IsBannedLevel_loop ::
  "('n \<Rightarrow> 'a \<Rightarrow> bool) \<Rightarrow> int \<Rightarrow> 'a \<Rightarrow> ('a, 'n) banmap_t \<Rightarrow> int \<Rightarrow> int" where
  "IsBannedLevel_loop contains current_time net_addr [] level = level"
| "IsBannedLevel_loop contains current_time net_addr ((sub_net, ban_entry) # rest) level =
     (if current_time < nBanUntil ban_entry \<and> Match contains sub_net net_addr then
        (if banReason ban_entry \<noteq> BanReasonNodeMisbehaving then 2
         else IsBannedLevel_loop contains current_time net_addr rest 1)
      else IsBannedLevel_loop contains current_time net_addr rest level)"

definition IsBannedLevel :: "('n \<Rightarrow> 'a \<Rightarrow> bool) \<Rightarrow> int \<Rightarrow> ('a, 'n) BanMan \<Rightarrow> 'a \<Rightarrow> int" where
  "IsBannedLevel contains current_time st net_addr =
     (case map_of (m_banned_addrs st) net_addr of
        Some ban_entry \<Rightarrow>
          if current_time < nBanUntil ban_entry then
            (if banReason ban_entry \<noteq> BanReasonNodeMisbehaving then 2
             else IsBannedLevel_loop contains current_time net_addr (m_banned_subnets st) 1)
          else IsBannedLevel_loop contains current_time net_addr (m_banned_subnets st) 0
      | None \<Rightarrow> IsBannedLevel_loop contains current_time net_addr (m_banned_subnets st) 0)"

fun IsBanned_loop :: "('n \<Rightarrow> 'a \<Rightarrow> bool) \<Rightarrow> int \<Rightarrow> 'a \<Rightarrow> ('a, 'n) banmap_t \<Rightarrow> bool" where
  "IsBanned_loop contains current_time net_addr [] = False"
| "IsBanned_loop contains current_time net_addr ((sub_net, ban_entry) # rest) =
     (if current_time < nBanUntil ban_entry \<and> Match contains sub_net net_addr then True
      else IsBanned_loop contains current_time net_addr rest)"

definition IsBanned :: "('n \<Rightarrow> 'a \<Rightarrow> bool) \<Rightarrow> int \<Rightarrow> ('a, 'n) BanMan \<Rightarrow> 'a \<Rightarrow> bool" where
  "IsBanned contains current_time st net_addr =
     (case map_of (m_banned_addrs st) net_addr of
        Some ban_entry \<Rightarrow>
          if current_time < nBanUntil ban_entry then True
          else IsBanned_loop contains current_time net_addr (m_banned_subnets st)
      | None \<Rightarrow> IsBanned_loop contains current_time net_addr (m_banned_subnets st))"

definition IsBanned_subnet ::
  "('n \<Rightarrow> 'a \<Rightarrow> bool) \<Rightarrow> int \<Rightarrow> ('a, 'n) BanMan \<Rightarrow> ('a, 'n) CSubNet \<Rightarrow> bool" where
  "IsBanned_subnet contains current_time st sub_net =
     (case IsSingleAddr sub_net of
        Some addr \<Rightarrow> IsBanned contains current_time st addr
      | None \<Rightarrow>
          (case map_of (m_banned_subnets st) sub_net of
             Some ban_entry \<Rightarrow> current_time < nBanUntil ban_entry
           | None \<Rightarrow> False))"

subsection \<open>Ban\<close>

text \<open>
  The ways \<^verbatim>\<open>Ban\<close> can stop without returning: an \<^verbatim>\<open>assert(is_single_addr)\<close> that
  fails, and the assignment through the reference \<^verbatim>\<open>old_ban_entry\<close> after the map
  node it refers to has been erased (the evicted front of the ring is the address being
  banned), which is undefined behaviour. \<open>FrontOfEmptyRing\<close> stands for
  \<^verbatim>\<open>front()\<close> of an empty ring; the guard \<^verbatim>\<open>capacity() && full()\<close> excludes it.
\<close>

datatype abort = AssertionFailed | ErasedEntryAssigned | FrontOfEmptyRing

text \<open>
  \<^verbatim>\<open>operator[]\<close>: the entry of a key, stored as the null entry first when the map does
  not hold the key.
\<close>

definition index_entry :: "'k \<Rightarrow> ('k \<times> CBanEntry) list \<Rightarrow> ('k \<times> CBanEntry) list" where
  "index_entry k m = (case map_of m k of None \<Rightarrow> AList.update k CBanEntry_null m | Some e \<Rightarrow> m)"

definition entry_at :: "('k \<times> CBanEntry) list \<Rightarrow> 'k \<Rightarrow> CBanEntry" where
  "entry_at m k = (case map_of m k of None \<Rightarrow> CBanEntry_null | Some e \<Rightarrow> e)"

text \<open>
  The block of \<^verbatim>\<open>Ban\<close> that runs under the lock (lines 172 to 207). The result says
  whether control fell through to the notification (\<open>True\<close>) or left through one of the
  two \<^verbatim>\<open>return\<close> statements (\<open>False\<close>).
\<close>

definition Ban_misbehaving_limit ::
  "('a, 'n) CSubNet \<Rightarrow> CBanEntry \<Rightarrow> CBanEntry \<Rightarrow> bool \<Rightarrow> ('a, 'n) BanMan
     \<Rightarrow> abort + ('a, 'n) BanMan" where
  "Ban_misbehaving_limit sub_net old_ban_entry ban_entry ban_reason_upgrade st =
     (if cb_capacity (m_misbehaving_addrs st) \<noteq> 0 then
        if nBanUntil old_ban_entry \<noteq> 0 then
          if ban_reason_upgrade then
            (case IsSingleAddr sub_net of
               None \<Rightarrow> Inl AssertionFailed
             | Some addr \<Rightarrow>
                 Inr (st\<lparr>m_misbehaving_addrs := cb_erase_find addr (m_misbehaving_addrs st)\<rparr>))
          else Inr st
        else if banReason ban_entry = BanReasonNodeMisbehaving then
          (case IsSingleAddr sub_net of
             None \<Rightarrow> Inl AssertionFailed
           | Some addr \<Rightarrow>
               if cb_full (m_misbehaving_addrs st) then
                 (case cb_items (m_misbehaving_addrs st) of
                    [] \<Rightarrow> Inl FrontOfEmptyRing
                  | old_misbehaving # others \<Rightarrow>
                      if old_misbehaving = addr then Inl ErasedEntryAssigned
                      else
                        Inr (st\<lparr>m_banned_addrs := AList.delete old_misbehaving (m_banned_addrs st),
                                m_misbehaving_addrs := cb_push_back addr (m_misbehaving_addrs st)\<rparr>))
               else Inr (st\<lparr>m_misbehaving_addrs := cb_push_back addr (m_misbehaving_addrs st)\<rparr>))
        else Inr st
      else Inr st)"

definition assign_entry ::
  "('a, 'n) CSubNet \<Rightarrow> CBanEntry \<Rightarrow> ('a, 'n) BanMan \<Rightarrow> ('a, 'n) BanMan" where
  "assign_entry sub_net ban_entry st =
     (case IsSingleAddr sub_net of
        Some addr \<Rightarrow> st\<lparr>m_banned_addrs := AList.update addr ban_entry (m_banned_addrs st)\<rparr>
      | None \<Rightarrow> st\<lparr>m_banned_subnets := AList.update sub_net ban_entry (m_banned_subnets st)\<rparr>)"

definition Ban_locked ::
  "('a, 'n) CSubNet \<Rightarrow> CBanEntry \<Rightarrow> ('a, 'n) BanMan \<Rightarrow> abort + (bool \<times> ('a, 'n) BanMan)" where
  "Ban_locked sub_net ban_entry st =
     (let ban_reason = banReason ban_entry;
          st1 = (case IsSingleAddr sub_net of
                   Some addr \<Rightarrow> st\<lparr>m_banned_addrs := index_entry addr (m_banned_addrs st)\<rparr>
                 | None \<Rightarrow> st\<lparr>m_banned_subnets := index_entry sub_net (m_banned_subnets st)\<rparr>);
          old_ban_entry = (case IsSingleAddr sub_net of
                             Some addr \<Rightarrow> entry_at (m_banned_addrs st1) addr
                           | None \<Rightarrow> entry_at (m_banned_subnets st1) sub_net)
      in if banReason old_ban_entry = BanReasonManuallyAdded
            \<and> ban_reason \<noteq> BanReasonManuallyAdded then Inr (False, st1)
         else
           let ban_reason_upgrade =
                 (banReason old_ban_entry = BanReasonNodeMisbehaving
                  \<and> ban_reason \<noteq> BanReasonNodeMisbehaving)
           in if nBanUntil old_ban_entry < nBanUntil ban_entry \<or> ban_reason_upgrade then
                (case Ban_misbehaving_limit sub_net old_ban_entry ban_entry ban_reason_upgrade st1 of
                   Inl a \<Rightarrow> Inl a
                 | Inr st2 \<Rightarrow> Inr (True, (assign_entry sub_net ban_entry st2)\<lparr>m_is_dirty := True\<rparr>))
              else Inr (False, st1))"

text \<open>
  The value of an \<^verbatim>\<open>int64_t\<close> sum: the mathematical sum where it lies between
  \<open>- 2 ^ 63\<close> and \<open>2 ^ 63 - 1\<close>, and wrapped around in two's complement where it does
  not. C++ leaves signed overflow undefined; the wrap-around is what the build computes.
\<close>

definition int64_wrap :: "int \<Rightarrow> int" where
  "int64_wrap x = (x + 2 ^ 63) mod 2 ^ 64 - 2 ^ 63"

definition ban_until :: "int \<Rightarrow> int \<Rightarrow> int \<Rightarrow> bool \<Rightarrow> int" where
  "ban_until default_ban_time now ban_time_offset since_unix_epoch =
     (let normalized_ban_time_offset =
            (if ban_time_offset \<le> 0 then default_ban_time else ban_time_offset);
          normalized_since_unix_epoch =
            (if ban_time_offset \<le> 0 then False else since_unix_epoch)
      in int64_wrap ((if normalized_since_unix_epoch then 0 else now)
                       + normalized_ban_time_offset))"

definition Ban ::
  "('a, 'n) CSubNet \<Rightarrow> BanReason \<Rightarrow> int \<Rightarrow> bool \<Rightarrow> bool \<Rightarrow> int \<Rightarrow> ('a, 'n) BanMan
     \<Rightarrow> abort + ('a, 'n) BanMan" where
  "Ban sub_net ban_reason ban_time_offset since_unix_epoch write_ok now st =
     (let ban_entry = \<lparr>nCreateTime = now,
                       nBanUntil = ban_until (m_default_ban_time st) now ban_time_offset
                                     since_unix_epoch,
                       banReason = ban_reason\<rparr>
      in case Ban_locked sub_net ban_entry st of
           Inl a \<Rightarrow> Inl a
         | Inr (applied, st1) \<Rightarrow>
             if \<not> applied then Inr st1
             else
               let st2 = BannedListChanged_signal st1
               in if ban_reason = BanReasonManuallyAdded then Inr (DumpBanlist write_ok now st2)
                  else Inr st2)"

definition Ban_addr ::
  "'a \<Rightarrow> BanReason \<Rightarrow> int \<Rightarrow> bool \<Rightarrow> bool \<Rightarrow> int \<Rightarrow> ('a, 'n) BanMan \<Rightarrow> abort + ('a, 'n) BanMan" where
  "Ban_addr net_addr ban_reason ban_time_offset since_unix_epoch write_ok now st =
     Ban (SingleAddr net_addr) ban_reason ban_time_offset since_unix_epoch write_ok now st"

subsection \<open>Unban\<close>

definition Unban ::
  "('a, 'n) CSubNet \<Rightarrow> bool \<Rightarrow> int \<Rightarrow> ('a, 'n) BanMan \<Rightarrow> bool \<times> ('a, 'n) BanMan" where
  "Unban sub_net write_ok now st =
     (case IsSingleAddr sub_net of
        Some addr \<Rightarrow>
          (case map_of (m_banned_addrs st) addr of
             None \<Rightarrow> (False, st)
           | Some ban_entry \<Rightarrow>
               let ring = (if banReason ban_entry = BanReasonNodeMisbehaving
                           then cb_erase_find addr (m_misbehaving_addrs st)
                           else m_misbehaving_addrs st);
                   st1 = st\<lparr>m_banned_addrs := AList.delete addr (m_banned_addrs st),
                            m_misbehaving_addrs := ring,
                            m_is_dirty := True\<rparr>
               in (True, DumpBanlist write_ok now (BannedListChanged_signal st1)))
      | None \<Rightarrow>
          (case map_of (m_banned_subnets st) sub_net of
             None \<Rightarrow> (False, st)
           | Some ban_entry \<Rightarrow>
               let st1 = st\<lparr>m_banned_subnets := AList.delete sub_net (m_banned_subnets st),
                            m_is_dirty := True\<rparr>
               in (True, DumpBanlist write_ok now (BannedListChanged_signal st1))))"

definition Unban_addr :: "'a \<Rightarrow> bool \<Rightarrow> int \<Rightarrow> ('a, 'n) BanMan \<Rightarrow> bool \<times> ('a, 'n) BanMan" where
  "Unban_addr net_addr write_ok now st = Unban (SingleAddr net_addr) write_ok now st"

section \<open>Specification-side definitions and example states\<close>

text \<open>
  The entries that match an address and are active at \<open>now\<close>, in the words of the
  spec: the exact-address entry of the address, and every subnet entry whose range
  contains it, each with \<open>now < bannedUntil\<close>.
\<close>

definition matching_active ::
  "('n \<Rightarrow> 'a \<Rightarrow> bool) \<Rightarrow> int \<Rightarrow> ('a, 'n) BanMan \<Rightarrow> 'a \<Rightarrow> CBanEntry list" where
  "matching_active contains now st a =
     filter (\<lambda>e. now < nBanUntil e)
       (case map_of (m_banned_addrs st) a of None \<Rightarrow> [] | Some e \<Rightarrow> [e])
     @ map snd (filter (\<lambda>p. now < nBanUntil (snd p) \<and> Match contains (fst p) a)
                  (m_banned_subnets st))"

text \<open>
  A manager over addresses and ranges named by natural numbers, with nothing banned, an
  unbounded ring, a clean flag, a default ban time of one day, an observer and an empty
  store.
\<close>

definition BanMan_idle :: "(nat, nat) BanMan" where
  "BanMan_idle =
     \<lparr>m_banned_addrs = [], m_banned_subnets = [],
      m_misbehaving_addrs = \<lparr>cb_capacity = 0, cb_items = []\<rparr>,
      m_is_dirty = False, m_default_ban_time = 86400, m_client_interface = True,
      ui_events = [], db_file = Some [], db_writes = []\<rparr>"

definition ban_entry_of :: "int \<Rightarrow> int \<Rightarrow> BanReason \<Rightarrow> CBanEntry" where
  "ban_entry_of created until reason =
     \<lparr>nCreateTime = created, nBanUntil = until, banReason = reason\<rparr>"

text \<open>Every range contains every address: the widest subnet.\<close>

definition any_range :: "nat \<Rightarrow> nat \<Rightarrow> bool" where
  "any_range n a = True"

text \<open>
  The scenario of the spec: address 1 has an exact misbehaviour ban until 100 and lies
  in a manually banned range until 200. At time 50 the level is 2, although the first
  match found (the exact entry) is the misbehaviour ban; at time 150 only the manual ban
  is active.
\<close>

definition BanMan_two_matches :: "(nat, nat) BanMan" where
  "BanMan_two_matches =
     BanMan_idle
       \<lparr>m_banned_addrs := [(1, ban_entry_of 0 100 BanReasonNodeMisbehaving)],
        m_banned_subnets := [(Range 0, ban_entry_of 0 200 BanReasonManuallyAdded)]\<rparr>"

text \<open>
  The entry of a key, looked up in the map the key belongs to: the exact-address map for
  a single address, the subnet map otherwise.
\<close>

definition find_entry :: "('a, 'n) BanMan \<Rightarrow> ('a, 'n) CSubNet \<Rightarrow> CBanEntry option" where
  "find_entry st key =
     (case IsSingleAddr key of
        Some addr \<Rightarrow> map_of (m_banned_addrs st) addr
      | None \<Rightarrow> map_of (m_banned_subnets st) key)"

text \<open>
  Some entry of the table ended before \<open>now\<close> (\<open>nBanUntil < now\<close>): the entries that
  both the spec's sweep and the code's sweep remove.
\<close>

definition ended_before :: "int \<Rightarrow> ('a, 'n) BanMan \<Rightarrow> bool" where
  "ended_before now st =
     (list_ex (\<lambda>p. nBanUntil (snd p) < now) (m_banned_subnets st)
      \<or> list_ex (\<lambda>p. nBanUntil (snd p) < now) (m_banned_addrs st))"

text \<open>The merged table, as \<^verbatim>\<open>GetBanned\<close> exports it without its sweep.\<close>

definition snapshot :: "('a, 'n) BanMan \<Rightarrow> ('a, 'n) banmap_t" where
  "snapshot st = merge_banned (m_banned_addrs st) (m_banned_subnets st)"

text \<open>
  A clean manager holding one exact-address ban that ran out at time 50, and one holding
  a ban that runs until 100.
\<close>

definition BanMan_stale :: "(nat, nat) BanMan" where
  "BanMan_stale =
     BanMan_idle\<lparr>m_banned_addrs := [(1, ban_entry_of 0 50 BanReasonNodeMisbehaving)]\<rparr>"

definition BanMan_until_100 :: "(nat, nat) BanMan" where
  "BanMan_until_100 =
     BanMan_idle\<lparr>m_banned_addrs := [(1, ban_entry_of 0 100 BanReasonManuallyAdded)]\<rparr>"

text \<open>
  The invariant the spec gives the ring: every address in it has an entry in the
  exact-address map with reason \<open>BanReasonNodeMisbehaving\<close>, and the ring holds no more
  addresses than its capacity.
\<close>

definition ring_backed :: "('a, 'n) BanMan \<Rightarrow> bool" where
  "ring_backed st =
     (list_all
        (\<lambda>a. case map_of (m_banned_addrs st) a of
                None \<Rightarrow> False
              | Some e \<Rightarrow> banReason e = BanReasonNodeMisbehaving)
        (cb_items (m_misbehaving_addrs st))
      \<and> length (cb_items (m_misbehaving_addrs st)) \<le> cb_capacity (m_misbehaving_addrs st))"

text \<open>
  A manager whose ring holds one address, after address 1 was banned for misbehaviour
  at time 0 for 60 seconds.
\<close>

definition BanMan_ring_of_1 :: "(nat, nat) BanMan" where
  "BanMan_ring_of_1 =
     BanMan_idle
       \<lparr>m_banned_addrs := [(1, ban_entry_of 0 60 BanReasonNodeMisbehaving)],
        m_misbehaving_addrs := \<lparr>cb_capacity = 1, cb_items = [1]\<rparr>,
        m_is_dirty := True,
        ui_events := [BannedListChanged]\<rparr>"

text \<open>
  The entry a key has for the precedence rules of \<^verbatim>\<open>Ban\<close>: its entry in the table,
  and the null entry when the table has none (the spec: an absent entry behaves as
  \<^verbatim>\<open>{bannedUntil: 0, reason: Unknown}\<close>).
\<close>

definition existing_entry :: "('a, 'n) BanMan \<Rightarrow> ('a, 'n) CSubNet \<Rightarrow> CBanEntry" where
  "existing_entry st key = (case find_entry st key of None \<Rightarrow> CBanEntry_null | Some e \<Rightarrow> e)"

text \<open>The two conditions of the spec (4.2, steps 2 to 4) on the existing and the new entry.\<close>

definition ban_rejected :: "CBanEntry \<Rightarrow> CBanEntry \<Rightarrow> bool" where
  "ban_rejected old new =
     (banReason old = BanReasonManuallyAdded \<and> banReason new \<noteq> BanReasonManuallyAdded)"

definition ban_applies :: "CBanEntry \<Rightarrow> CBanEntry \<Rightarrow> bool" where
  "ban_applies old new =
     (nBanUntil old < nBanUntil new
      \<or> (banReason old = BanReasonNodeMisbehaving \<and> banReason new \<noteq> BanReasonNodeMisbehaving))"

text \<open>
  The entry \<^verbatim>\<open>Ban\<close> builds from its arguments (lines 162 to 170), and the state after
  the lookup \<^verbatim>\<open>m_banned_addrs[*addr]\<close> or \<^verbatim>\<open>m_banned_subnets[sub_net]\<close> of line 176.
\<close>

definition requested_entry :: "('a, 'n) BanMan \<Rightarrow> int \<Rightarrow> BanReason \<Rightarrow> int \<Rightarrow> bool \<Rightarrow> CBanEntry" where
  "requested_entry st now ban_reason ban_time_offset since_unix_epoch =
     \<lparr>nCreateTime = now,
      nBanUntil = ban_until (m_default_ban_time st) now ban_time_offset since_unix_epoch,
      banReason = ban_reason\<rparr>"

definition index_key :: "('a, 'n) CSubNet \<Rightarrow> ('a, 'n) BanMan \<Rightarrow> ('a, 'n) BanMan" where
  "index_key key st =
     (case IsSingleAddr key of
        Some addr \<Rightarrow> st\<lparr>m_banned_addrs := index_entry addr (m_banned_addrs st)\<rparr>
      | None \<Rightarrow> st\<lparr>m_banned_subnets := index_entry key (m_banned_subnets st)\<rparr>)"


text \<open>
  A stored ban list with one entry that ran out at time 50 and one that runs until 200.
\<close>

definition banlist_one_stale :: "(nat, nat) banmap_t" where
  "banlist_one_stale =
     [(SingleAddr 1, ban_entry_of 0 50 BanReasonManuallyAdded),
      (Range 0, ban_entry_of 0 200 BanReasonManuallyAdded)]"

text \<open>
  A sequence of misbehaviour bans of single addresses: each request carries the
  arguments of one call of \<^verbatim>\<open>Ban(net_addr, BanReasonNodeMisbehaving, offset, epoch)\<close> and
  the clock reading of that call. \<open>Ban_misbehaving_all\<close> runs the calls in order and
  stops at the first that does not return.
\<close>

record 'a ban_request =
  req_addr :: 'a
  req_offset :: int
  req_since_epoch :: bool
  req_time :: int

fun Ban_misbehaving_all ::
  "bool \<Rightarrow> 'a ban_request list \<Rightarrow> ('a, 'n) BanMan \<Rightarrow> abort + ('a, 'n) BanMan" where
  "Ban_misbehaving_all write_ok [] st = Inr st"
| "Ban_misbehaving_all write_ok (r # rest) st =
     (case Ban_addr (req_addr r) BanReasonNodeMisbehaving (req_offset r) (req_since_epoch r)
             write_ok (req_time r) st of
        Inl a \<Rightarrow> Inl a
      | Inr st1 \<Rightarrow> Ban_misbehaving_all write_ok rest st1)"

text \<open>The entry the call of a request writes, under the default ban time \<open>dbt\<close>.\<close>

definition misbehaving_entry :: "int \<Rightarrow> 'a ban_request \<Rightarrow> CBanEntry" where
  "misbehaving_entry dbt r =
     \<lparr>nCreateTime = req_time r,
      nBanUntil = ban_until dbt (req_time r) (req_offset r) (req_since_epoch r),
      banReason = BanReasonNodeMisbehaving\<rparr>"

text \<open>
  The ring holds the keys of the exact-address map, in the order of their bans, and the
  subnet map is empty: the states a manager passes through when only misbehaviour bans
  of single addresses are made.
\<close>

definition ring_tracks :: "nat \<Rightarrow> ('a, 'n) BanMan \<Rightarrow> bool" where
  "ring_tracks C st =
     (cb_capacity (m_misbehaving_addrs st) = C
      \<and> cb_items (m_misbehaving_addrs st) = map fst (m_banned_addrs st)
      \<and> distinct (map fst (m_banned_addrs st))
      \<and> length (m_banned_addrs st) \<le> C
      \<and> m_banned_subnets st = [])"

text \<open>
  The scenario of the spec: addresses 10, 20 and 30 are banned for misbehaviour for 60
  seconds at times 0, 1 and 2.
\<close>

definition three_requests :: "nat ban_request list" where
  "three_requests =
     [\<lparr>req_addr = 10, req_offset = 60, req_since_epoch = False, req_time = 0\<rparr>,
      \<lparr>req_addr = 20, req_offset = 60, req_since_epoch = False, req_time = 1\<rparr>,
      \<lparr>req_addr = 30, req_offset = 60, req_since_epoch = False, req_time = 2\<rparr>]"

text \<open>The state after one misbehaviour ban of address 10 with an unbounded ring.\<close>

definition BanMan_first_ban_kept :: "(nat, nat) BanMan" where
  "BanMan_first_ban_kept =
     BanMan_idle
       \<lparr>m_banned_addrs := [(10, ban_entry_of 0 60 BanReasonNodeMisbehaving)],
        m_is_dirty := True,
        ui_events := [BannedListChanged]\<rparr>"

text \<open>
  The states after the sweep at time 61 of the manager above, a manual ban of address 1
  for 600 seconds at time 61, and then a misbehaviour ban of address 2 at time 62.
\<close>

definition BanMan_manual_on_stale_ring :: "(nat, nat) BanMan" where
  "BanMan_manual_on_stale_ring =
     BanMan_idle
       \<lparr>m_banned_addrs := [(1, ban_entry_of 61 661 BanReasonManuallyAdded)],
        m_misbehaving_addrs := \<lparr>cb_capacity = 1, cb_items = [1]\<rparr>,
        ui_events := [BannedListChanged, BannedListChanged, BannedListChanged],
        db_file := Some [(SingleAddr 1, ban_entry_of 61 661 BanReasonManuallyAdded)],
        db_writes := [[(SingleAddr 1, ban_entry_of 61 661 BanReasonManuallyAdded)]]\<rparr>"

definition BanMan_manual_ban_lost :: "(nat, nat) BanMan" where
  "BanMan_manual_ban_lost =
     BanMan_manual_on_stale_ring
       \<lparr>m_banned_addrs := [(2, ban_entry_of 62 122 BanReasonNodeMisbehaving)],
        m_misbehaving_addrs := \<lparr>cb_capacity = 1, cb_items = [2]\<rparr>,
        m_is_dirty := True,
        ui_events := [BannedListChanged, BannedListChanged, BannedListChanged,
                      BannedListChanged]\<rparr>"

text \<open>
  Two more runs with a ring of capacity 1. In the first the default ban time is negative
  and both requests ask for it (offset 0), at times 50 and 51: neither ban applies. In
  the second both requests name an absolute time that has passed (5 and 7, asked at
  times 100 and 101): both bans apply and have run out before they are written.
\<close>

definition two_requests_not_applied :: "nat ban_request list" where
  "two_requests_not_applied =
     [\<lparr>req_addr = 10, req_offset = 0, req_since_epoch = False, req_time = 50\<rparr>,
      \<lparr>req_addr = 20, req_offset = 0, req_since_epoch = False, req_time = 51\<rparr>]"

definition BanMan_none_applied :: "(nat, nat) BanMan" where
  "BanMan_none_applied =
     BanMan_idle
       \<lparr>m_banned_addrs := [(10, CBanEntry_null), (20, CBanEntry_null)],
        m_misbehaving_addrs := \<lparr>cb_capacity = 1, cb_items = []\<rparr>,
        m_default_ban_time := - 100\<rparr>"

definition two_requests_in_the_past :: "nat ban_request list" where
  "two_requests_in_the_past =
     [\<lparr>req_addr = 10, req_offset = 5, req_since_epoch = True, req_time = 100\<rparr>,
      \<lparr>req_addr = 20, req_offset = 7, req_since_epoch = True, req_time = 101\<rparr>]"

definition BanMan_second_ran_out :: "(nat, nat) BanMan" where
  "BanMan_second_ran_out =
     BanMan_idle
       \<lparr>m_banned_addrs := [(20, ban_entry_of 101 7 BanReasonNodeMisbehaving)],
        m_misbehaving_addrs := \<lparr>cb_capacity = 1, cb_items = [20]\<rparr>,
        m_is_dirty := True,
        ui_events := [BannedListChanged, BannedListChanged]\<rparr>"

text \<open>
  Every entry of the table is active at \<open>now\<close> (\<open>now < nBanUntil\<close>): nothing has expired.
\<close>

definition all_active :: "int \<Rightarrow> ('a, 'n) BanMan \<Rightarrow> bool" where
  "all_active now st =
     (list_all (\<lambda>p. now < nBanUntil (snd p)) (m_banned_subnets st)
      \<and> list_all (\<lambda>p. now < nBanUntil (snd p)) (m_banned_addrs st))"

text \<open>
  What a sweep at \<open>now\<close> makes of a map, as far as the spec and the code agree: nothing
  is added, every entry that is still active stays, and no entry with
  \<open>nBanUntil < now\<close> is left. Whether an entry with \<open>nBanUntil = now\<close> stays is left
  open.
\<close>

definition swept_at ::
  "int \<Rightarrow> ('k \<times> CBanEntry) list \<Rightarrow> ('k \<times> CBanEntry) list \<Rightarrow> bool" where
  "swept_at now before after =
     (set after \<subseteq> set before
      \<and> (\<forall>p \<in> set before. now < nBanUntil (snd p) \<longrightarrow> p \<in> set after)
      \<and> (\<forall>p \<in> set after. \<not> nBanUntil (snd p) < now))"

section \<open>The 64-bit sum of line 170\<close>

lemma int64_wrap_in_range: "- (2 ^ 63) \<le> x \<Longrightarrow> x < 2 ^ 63 \<Longrightarrow> int64_wrap x = x"
  by (simp add: int64_wrap_def)

lemma int64_wrap_bounds: "- (2 ^ 63) \<le> int64_wrap x \<and> int64_wrap x < 2 ^ 63"
  by (simp add: int64_wrap_def)

text \<open>
  A relative offset that takes the sum past \<open>2 ^ 63 - 1\<close> gives a negative
  \<open>nBanUntil\<close>, and the ban of an address without an entry does not apply.
\<close>

lemma ban_until_overflow:
  "ban_until 86400 100 (2 ^ 63 - 1) False = 99 - 2 ^ 63
   \<and> Ban_locked (SingleAddr 20)
         (requested_entry BanMan_idle 100 BanReasonNodeMisbehaving (2 ^ 63 - 1) False)
         BanMan_idle
       = Inr (False, BanMan_idle\<lparr>m_banned_addrs := [(20, CBanEntry_null)]\<rparr>)"
  by (simp add: ban_until_def int64_wrap_def requested_entry_def Ban_locked_def index_entry_def
      entry_at_def CBanEntry_null_def BanMan_idle_def Let_def)

section \<open>SweepBanned: what the loops keep\<close>

lemma sweep_entries_fst:
  "fst (sweep_entries now m) = filter (\<lambda>p. \<not> now > nBanUntil (snd p)) m"
  by (induction m) auto

lemma sweep_entries_snd:
  "snd (sweep_entries now m) = list_ex (\<lambda>p. now > nBanUntil (snd p)) m"
  by (induction m) (auto split: if_splits)

section \<open>IsBannedLevel\<close>

lemma IsBannedLevel_loop_eq:
  "IsBannedLevel_loop c t a m level =
     (let M = map snd (filter (\<lambda>p. t < nBanUntil (snd p) \<and> Match c (fst p) a) m)
      in if list_ex (\<lambda>e. banReason e \<noteq> BanReasonNodeMisbehaving) M then 2
         else if M \<noteq> [] then 1 else level)"
  by (induction m arbitrary: level) (auto simp: Let_def)

lemma IsBannedLevel_eq:
  "IsBannedLevel c now st a =
     (if list_ex (\<lambda>e. banReason e \<noteq> BanReasonNodeMisbehaving) (matching_active c now st a)
      then 2
      else if matching_active c now st a \<noteq> [] then 1 else 0)"
proof (cases "map_of (m_banned_addrs st) a")
  case None
  then show ?thesis
    by (simp add: IsBannedLevel_def matching_active_def IsBannedLevel_loop_eq Let_def)
next
  case (Some e)
  then show ?thesis
    by (simp add: IsBannedLevel_def matching_active_def IsBannedLevel_loop_eq Let_def)
qed

text \<open>
  C7. For every address and every state, \<open>IsBannedLevel\<close> returns 2 exactly when some
  matching active entry (the exact-address entry, or a subnet entry whose range contains
  the address, with \<open>now < nBanUntil\<close>) has a reason other than
  \<open>BanReasonNodeMisbehaving\<close>; it returns 1 exactly when there is a matching active
  entry and all of them have reason \<open>BanReasonNodeMisbehaving\<close>; it returns 0 exactly
  when there is none. The result is the greatest severity over all matches.
\<close>

theorem IsBannedLevel_max_severity:
  "(IsBannedLevel c now st a = 2 \<longleftrightarrow>
      (\<exists>e \<in> set (matching_active c now st a). banReason e \<noteq> BanReasonNodeMisbehaving))
   \<and> (IsBannedLevel c now st a = 1 \<longleftrightarrow>
      matching_active c now st a \<noteq> []
      \<and> (\<forall>e \<in> set (matching_active c now st a). banReason e = BanReasonNodeMisbehaving))
   \<and> (IsBannedLevel c now st a = 0 \<longleftrightarrow> matching_active c now st a = [])"
proof -
  define M where "M = matching_active c now st a"
  have lvl: "IsBannedLevel c now st a =
      (if list_ex (\<lambda>e. banReason e \<noteq> BanReasonNodeMisbehaving) M then 2
       else if M \<noteq> [] then 1 else 0)"
    unfolding M_def by (rule IsBannedLevel_eq)
  have ex: "list_ex (\<lambda>e. banReason e \<noteq> BanReasonNodeMisbehaving) M
      \<longleftrightarrow> (\<exists>e \<in> set M. banReason e \<noteq> BanReasonNodeMisbehaving)"
    by (simp add: list_ex_iff)
  have nonempty: "(\<exists>e \<in> set M. banReason e \<noteq> BanReasonNodeMisbehaving) \<Longrightarrow> M \<noteq> []"
    by auto
  show ?thesis
    unfolding M_def [symmetric] lvl ex using nonempty by auto
qed

theorem IsBannedLevel_max_severity_witness:
  "IsBannedLevel any_range 50 BanMan_two_matches 1 = 2
   \<and> matching_active any_range 50 BanMan_two_matches 1 =
       [ban_entry_of 0 100 BanReasonNodeMisbehaving, ban_entry_of 0 200 BanReasonManuallyAdded]"
proof -
  have m: "matching_active any_range 50 BanMan_two_matches 1 =
      [ban_entry_of 0 100 BanReasonNodeMisbehaving, ban_entry_of 0 200 BanReasonManuallyAdded]"
    by (simp add: matching_active_def BanMan_two_matches_def BanMan_idle_def
        ban_entry_of_def any_range_def)
  have "\<exists>e \<in> set (matching_active any_range 50 BanMan_two_matches 1).
          banReason e \<noteq> BanReasonNodeMisbehaving"
    unfolding m by (simp add: ban_entry_of_def)
  with IsBannedLevel_max_severity [of any_range 50 BanMan_two_matches 1]
  have "IsBannedLevel any_range 50 BanMan_two_matches 1 = 2" by blast
  with m show ?thesis by simp
qed

section \<open>SweepBanned and DumpBanlist\<close>

lemma SweepBanned_fields:
  "m_banned_addrs (SweepBanned now st) = filter (\<lambda>p. \<not> now > nBanUntil (snd p)) (m_banned_addrs st)"
  "m_banned_subnets (SweepBanned now st) = filter (\<lambda>p. \<not> now > nBanUntil (snd p)) (m_banned_subnets st)"
  "m_is_dirty (SweepBanned now st) = (m_is_dirty st \<or> ended_before now st)"
  "m_misbehaving_addrs (SweepBanned now st) = m_misbehaving_addrs st"
  "db_writes (SweepBanned now st) = db_writes st"
  "db_file (SweepBanned now st) = db_file st"
  "m_client_interface (SweepBanned now st) = m_client_interface st"
  "m_default_ban_time (SweepBanned now st) = m_default_ban_time st"
  "ui_events (SweepBanned now st) =
     (if ended_before now st \<and> m_client_interface st then ui_events st @ [BannedListChanged]
      else ui_events st)"
  by (auto simp: SweepBanned_def Let_def BannedListChanged_signal_def ended_before_def
      sweep_entries_fst sweep_entries_snd)

lemma filter_unexpired_id:
  "\<not> list_ex (\<lambda>p. nBanUntil (snd p) < now) m \<Longrightarrow>
   filter (\<lambda>p. \<not> now > nBanUntil (snd p)) m = m"
  by (induction m) auto

lemma SweepBanned_nothing_to_erase:
  "\<not> ended_before now st \<Longrightarrow> SweepBanned now st = st"
  by (simp add: SweepBanned_def Let_def ended_before_def sweep_entries_fst sweep_entries_snd
      filter_unexpired_id)

lemma ended_before_SweepBanned: "\<not> ended_before now (SweepBanned now st)"
  by (simp add: ended_before_def SweepBanned_fields list_ex_iff)

lemma SweepBanned_idem: "SweepBanned now (SweepBanned now st) = SweepBanned now st"
  by (rule SweepBanned_nothing_to_erase) (rule ended_before_SweepBanned)

lemma DumpBanlist_eq:
  "DumpBanlist write_ok now st =
     (if \<not> m_is_dirty st \<and> \<not> ended_before now st then st
      else (SweepBanned now st)
             \<lparr>m_is_dirty := \<not> write_ok,
              db_file := (if write_ok then Some (snapshot (SweepBanned now st)) else db_file st),
              db_writes := db_writes st @ [snapshot (SweepBanned now st)]\<rparr>)"
proof (cases "m_is_dirty st \<or> ended_before now st")
  case False
  then show ?thesis
    by (simp add: DumpBanlist_def Let_def BannedSetIsDirty_def SweepBanned_nothing_to_erase)
next
  case True
  then have d: "m_is_dirty (SweepBanned now st)" by (simp add: SweepBanned_fields)
  show ?thesis
  proof (cases write_ok)
    case True
    with d \<open>m_is_dirty st \<or> ended_before now st\<close> show ?thesis
      by (auto simp: DumpBanlist_def Let_def BannedSetIsDirty_def GetBanned_def SweepBanned_idem
        SetBannedSetDirty_def snapshot_def SweepBanned_fields)
  next
    case False
    have "(SweepBanned now st)\<lparr>m_is_dirty := True\<rparr> = SweepBanned now st"
      using d by simp
    with False d \<open>m_is_dirty st \<or> ended_before now st\<close> show ?thesis
      by (auto simp: DumpBanlist_def Let_def BannedSetIsDirty_def GetBanned_def SweepBanned_idem
        SetBannedSetDirty_def snapshot_def SweepBanned_fields)
  qed
qed

lemma swept_at_filter:
  "swept_at now m (filter (\<lambda>p. \<not> now > nBanUntil (snd p)) m)"
  by (auto simp: swept_at_def)

lemma all_active_none_ended: "all_active now st \<Longrightarrow> \<not> ended_before now st"
  by (auto simp: all_active_def ended_before_def list_all_iff list_ex_iff)

lemma snapshot_SweepBanned_update:
  "snapshot ((SweepBanned now st)\<lparr>m_is_dirty := d, db_file := f, db_writes := w\<rparr>)
     = snapshot (SweepBanned now st)"
  by (simp add: snapshot_def)

text \<open>
  C5, as the code has it. \<open>DumpBanlist\<close> sweeps first and reads the dirty flag after
  the sweep. When the flag is clear and no entry has expired (every entry has
  \<open>now < nBanUntil\<close>), the call changes nothing: table, ring, flag, observer and store
  stay as they are. When the flag is set, or an entry ran out before \<open>now\<close>
  (\<open>nBanUntil < now\<close>, so that the sweep sets the flag), the table is swept, the ring is
  untouched, the snapshot of the table the call leaves is handed to the writer once, and
  the flag ends clear exactly when the write succeeds; a failed write leaves the flag
  set and the store as it was.
\<close>

theorem DumpBanlist_sweeps_before_dirty_check:
  "(\<not> m_is_dirty st \<and> all_active now st \<longrightarrow> DumpBanlist write_ok now st = st)
   \<and> (m_is_dirty st \<or> ended_before now st \<longrightarrow>
        swept_at now (m_banned_addrs st) (m_banned_addrs (DumpBanlist write_ok now st))
        \<and> swept_at now (m_banned_subnets st) (m_banned_subnets (DumpBanlist write_ok now st))
        \<and> m_misbehaving_addrs (DumpBanlist write_ok now st) = m_misbehaving_addrs st
        \<and> db_writes (DumpBanlist write_ok now st)
            = db_writes st @ [snapshot (DumpBanlist write_ok now st)]
        \<and> m_is_dirty (DumpBanlist write_ok now st) = (\<not> write_ok)
        \<and> db_file (DumpBanlist write_ok now st)
            = (if write_ok then Some (snapshot (DumpBanlist write_ok now st))
               else db_file st))"
proof (intro conjI impI)
  assume "\<not> m_is_dirty st \<and> all_active now st"
  then show "DumpBanlist write_ok now st = st"
    by (simp add: DumpBanlist_eq all_active_none_ended)
next
  assume flush: "m_is_dirty st \<or> ended_before now st"
  then have eq: "DumpBanlist write_ok now st
      = (SweepBanned now st)
          \<lparr>m_is_dirty := \<not> write_ok,
           db_file := (if write_ok then Some (snapshot (SweepBanned now st)) else db_file st),
           db_writes := db_writes st @ [snapshot (SweepBanned now st)]\<rparr>"
    by (auto simp: DumpBanlist_eq)
  have snap: "snapshot (DumpBanlist write_ok now st) = snapshot (SweepBanned now st)"
    unfolding eq by (rule snapshot_SweepBanned_update)
  show "swept_at now (m_banned_addrs st) (m_banned_addrs (DumpBanlist write_ok now st))"
    and "swept_at now (m_banned_subnets st) (m_banned_subnets (DumpBanlist write_ok now st))"
    by (simp_all add: eq SweepBanned_fields swept_at_filter)
  show "m_misbehaving_addrs (DumpBanlist write_ok now st) = m_misbehaving_addrs st"
    by (simp add: eq SweepBanned_fields)
  show "db_writes (DumpBanlist write_ok now st)
      = db_writes st @ [snapshot (DumpBanlist write_ok now st)]"
    unfolding snap by (simp add: eq)
  show "m_is_dirty (DumpBanlist write_ok now st) = (\<not> write_ok)"
    by (simp add: eq)
  show "db_file (DumpBanlist write_ok now st)
      = (if write_ok then Some (snapshot (DumpBanlist write_ok now st)) else db_file st)"
    unfolding snap by (simp add: eq)
qed

theorem DumpBanlist_sweeps_before_dirty_check_witness:
  "DumpBanlist True 50 BanMan_until_100 = BanMan_until_100
   \<and> swept_at 100 (m_banned_addrs BanMan_stale) (m_banned_addrs (DumpBanlist False 100 BanMan_stale))
   \<and> m_banned_addrs (DumpBanlist False 100 BanMan_stale) = []
   \<and> db_writes (DumpBanlist False 100 BanMan_stale) = [[]]
   \<and> m_is_dirty (DumpBanlist False 100 BanMan_stale)
   \<and> db_file (DumpBanlist False 100 BanMan_stale) = Some []"
proof -
  have clean: "\<not> m_is_dirty BanMan_until_100 \<and> all_active 50 BanMan_until_100"
    by (simp add: BanMan_until_100_def BanMan_idle_def all_active_def ban_entry_of_def)
  have stale: "m_is_dirty BanMan_stale \<or> ended_before 100 BanMan_stale"
    by (simp add: BanMan_stale_def BanMan_idle_def ended_before_def ban_entry_of_def)
  have before: "db_writes BanMan_stale = []" "db_file BanMan_stale = Some []"
    "m_banned_subnets BanMan_stale = []"
    "m_banned_addrs BanMan_stale = [(1, ban_entry_of 0 50 BanReasonNodeMisbehaving)]"
    by (simp_all add: BanMan_stale_def BanMan_idle_def)
  from DumpBanlist_sweeps_before_dirty_check [of BanMan_until_100 50 True] clean
  have noop: "DumpBanlist True 50 BanMan_until_100 = BanMan_until_100"
    by simp
  from DumpBanlist_sweeps_before_dirty_check [of BanMan_stale 100 False] stale
  have flushed:
    "swept_at 100 (m_banned_addrs BanMan_stale) (m_banned_addrs (DumpBanlist False 100 BanMan_stale))"
    "swept_at 100 (m_banned_subnets BanMan_stale) (m_banned_subnets (DumpBanlist False 100 BanMan_stale))"
    "db_writes (DumpBanlist False 100 BanMan_stale)
       = db_writes BanMan_stale @ [snapshot (DumpBanlist False 100 BanMan_stale)]"
    "m_is_dirty (DumpBanlist False 100 BanMan_stale)"
    "db_file (DumpBanlist False 100 BanMan_stale) = db_file BanMan_stale"
    by simp_all
  from flushed(1) have addrs: "m_banned_addrs (DumpBanlist False 100 BanMan_stale) = []"
    by (cases "m_banned_addrs (DumpBanlist False 100 BanMan_stale)")
       (auto simp: swept_at_def before ban_entry_of_def)
  from flushed(2) have subnets: "m_banned_subnets (DumpBanlist False 100 BanMan_stale) = []"
    by (simp add: swept_at_def before)
  from noop flushed addrs subnets show ?thesis
    by (simp add: before snapshot_def merge_banned_def)
qed

text \<open>
  The claim as the spec words it fails: with the dirty flag clear and one ban that ran out
  at time 50, \<open>DumpBanlist\<close> at time 100 removes the entry, notifies the observer and
  writes the store.
\<close>

theorem DumpBanlist_clean_flag_counterexample:
  "\<not> m_is_dirty BanMan_stale
   \<and> m_banned_addrs BanMan_stale = [(1, ban_entry_of 0 50 BanReasonNodeMisbehaving)]
   \<and> db_writes BanMan_stale = []
   \<and> m_banned_addrs (DumpBanlist True 100 BanMan_stale) = []
   \<and> db_writes (DumpBanlist True 100 BanMan_stale) = [[]]
   \<and> ui_events (DumpBanlist True 100 BanMan_stale) = [BannedListChanged]"
  by (simp add: DumpBanlist_eq SweepBanned_fields ended_before_def BanMan_stale_def
      BanMan_idle_def ban_entry_of_def snapshot_def merge_banned_def)

text \<open>
  C3. \<open>SweepBanned\<close> removes the entries with \<open>nBanUntil < now\<close> and keeps the one with
  \<open>nBanUntil = now\<close>: a ban that runs until 100 is still in the table after the sweep at
  time 100 and \<^verbatim>\<open>GetBanned\<close> exports it, although \<open>IsBanned\<close> no longer counts it.
\<close>

theorem SweepBanned_keeps_ban_ending_now:
  "nBanUntil (ban_entry_of 0 100 BanReasonManuallyAdded) \<le> 100
   \<and> SweepBanned 100 BanMan_until_100 = BanMan_until_100
   \<and> fst (GetBanned 100 BanMan_until_100)
       = [(SingleAddr 1, ban_entry_of 0 100 BanReasonManuallyAdded)]
   \<and> \<not> IsBanned any_range 100 BanMan_until_100 1"
  by (simp add: SweepBanned_def GetBanned_def merge_banned_def IsBanned_def
      BanMan_until_100_def BanMan_idle_def ban_entry_of_def Let_def)

text \<open>
  What the sweep does remove, for every table and time: exactly the entries with
  \<open>nBanUntil < now\<close>, from both maps.
\<close>

lemma SweepBanned_removes_exactly:
  "set (m_banned_addrs (SweepBanned now st))
     = {p \<in> set (m_banned_addrs st). \<not> nBanUntil (snd p) < now}
   \<and> set (m_banned_subnets (SweepBanned now st))
     = {p \<in> set (m_banned_subnets st). \<not> nBanUntil (snd p) < now}"
  by (auto simp: SweepBanned_fields)

text \<open>
  C2. \<open>SweepBanned\<close> erases an exact-address entry and leaves its address in the ring:
  after address 1 was banned for misbehaviour until 60 with a ring of capacity 1, the
  sweep at time 61 empties the table and the ring still holds address 1, with no entry
  behind it.
\<close>

theorem SweepBanned_leaves_ring_entry:
  "Ban_addr 1 BanReasonNodeMisbehaving 60 False True 0 (SetMisbehavingLimit 1 BanMan_idle)
     = Inr BanMan_ring_of_1
   \<and> ring_backed BanMan_ring_of_1
   \<and> m_banned_addrs (SweepBanned 61 BanMan_ring_of_1) = []
   \<and> cb_items (m_misbehaving_addrs (SweepBanned 61 BanMan_ring_of_1)) = [1]
   \<and> \<not> ring_backed (SweepBanned 61 BanMan_ring_of_1)"
  by (simp add: Ban_addr_def Ban_def Ban_locked_def Ban_misbehaving_limit_def assign_entry_def
      index_entry_def entry_at_def CBanEntry_null_def ban_until_def int64_wrap_def SetMisbehavingLimit_def
      cb_set_capacity_def cb_full_def cb_push_back_def BannedListChanged_signal_def
      BanMan_ring_of_1_def BanMan_idle_def ban_entry_of_def ring_backed_def
      SweepBanned_fields Let_def)

text \<open>
  What follows from the stale ring: a manual ban of address 1 after the sweep is erased
  when the misbehaviour ban of address 2 evicts address 1 from the full ring, and a new
  misbehaviour ban of address 1 itself erases the map entry that the assignment of line
  203 then writes through.
\<close>

lemma stale_ring_erases_manual_ban:
  "Ban_addr 1 BanReasonManuallyAdded 600 False True 61 (SweepBanned 61 BanMan_ring_of_1)
     = Inr BanMan_manual_on_stale_ring
   \<and> find_entry BanMan_manual_on_stale_ring (SingleAddr 1)
       = Some (ban_entry_of 61 661 BanReasonManuallyAdded)
   \<and> Ban_addr 2 BanReasonNodeMisbehaving 60 False True 62 BanMan_manual_on_stale_ring
       = Inr BanMan_manual_ban_lost
   \<and> find_entry BanMan_manual_ban_lost (SingleAddr 1) = None
   \<and> Ban_addr 1 BanReasonNodeMisbehaving 60 False True 61 (SweepBanned 61 BanMan_ring_of_1)
       = Inl ErasedEntryAssigned"
  by (simp add: Ban_addr_def Ban_def Ban_locked_def Ban_misbehaving_limit_def assign_entry_def
      index_entry_def entry_at_def CBanEntry_null_def ban_until_def int64_wrap_def cb_full_def cb_push_back_def
      BannedListChanged_signal_def DumpBanlist_eq SweepBanned_fields ended_before_def
      snapshot_def merge_banned_def find_entry_def SweepBanned_def sweep_entries_fst
      sweep_entries_snd BanMan_ring_of_1_def BanMan_manual_on_stale_ring_def
      BanMan_manual_ban_lost_def BanMan_idle_def ban_entry_of_def Let_def)

section \<open>Unban\<close>

lemma map_of_filter_absent:
  "k \<notin> fst ` set m \<Longrightarrow> map_of (filter P m) k = None"
  by (induction m) auto

lemma map_of_swept_delete:
  "map_of (filter P (AList.delete k m)) k = None"
  by (rule map_of_filter_absent) (rule delete_notin_dom)

lemma Unban_absent:
  "find_entry st key = None \<Longrightarrow> Unban key write_ok now st = (False, st)"
  by (cases key) (simp_all add: Unban_def find_entry_def)

lemma Unban_single:
  assumes "map_of (m_banned_addrs st) addr = Some e"
  shows "Unban (SingleAddr addr) write_ok now st =
     (True, DumpBanlist write_ok now (BannedListChanged_signal
        (st\<lparr>m_banned_addrs := AList.delete addr (m_banned_addrs st),
            m_misbehaving_addrs :=
              (if banReason e = BanReasonNodeMisbehaving
               then cb_erase_find addr (m_misbehaving_addrs st) else m_misbehaving_addrs st),
            m_is_dirty := True\<rparr>)))"
  using assms by (simp add: Unban_def Let_def)

lemma Unban_range:
  assumes "map_of (m_banned_subnets st) (Range n) = Some e"
  shows "Unban (Range n) write_ok now st =
     (True, DumpBanlist write_ok now (BannedListChanged_signal
        (st\<lparr>m_banned_subnets := AList.delete (Range n) (m_banned_subnets st),
            m_is_dirty := True\<rparr>)))"
  using assms by (simp add: Unban_def Let_def)

lemma BannedListChanged_signal_fields:
  "m_banned_addrs (BannedListChanged_signal st) = m_banned_addrs st"
  "m_banned_subnets (BannedListChanged_signal st) = m_banned_subnets st"
  "m_misbehaving_addrs (BannedListChanged_signal st) = m_misbehaving_addrs st"
  "m_is_dirty (BannedListChanged_signal st) = m_is_dirty st"
  "db_writes (BannedListChanged_signal st) = db_writes st"
  "db_file (BannedListChanged_signal st) = db_file st"
  "m_client_interface (BannedListChanged_signal st) = m_client_interface st"
  "m_default_ban_time (BannedListChanged_signal st) = m_default_ban_time st"
  by (simp_all add: BannedListChanged_signal_def)

lemma DumpBanlist_dirty_fields:
  assumes "m_is_dirty st"
  shows "m_banned_addrs (DumpBanlist write_ok now st)
           = filter (\<lambda>p. \<not> now > nBanUntil (snd p)) (m_banned_addrs st)"
    and "m_banned_subnets (DumpBanlist write_ok now st)
           = filter (\<lambda>p. \<not> now > nBanUntil (snd p)) (m_banned_subnets st)"
    and "m_misbehaving_addrs (DumpBanlist write_ok now st) = m_misbehaving_addrs st"
    and "db_writes (DumpBanlist write_ok now st)
           = db_writes st @ [snapshot (DumpBanlist write_ok now st)]"
    and "m_is_dirty (DumpBanlist write_ok now st) = (\<not> write_ok)"
    and "db_file (DumpBanlist write_ok now st)
           = (if write_ok then Some (snapshot (DumpBanlist write_ok now st)) else db_file st)"
  using assms by (simp_all add: DumpBanlist_eq SweepBanned_fields snapshot_def)

text \<open>
  C8. \<open>Unban\<close> of a key the table does not hold returns false and leaves the whole
  state as it is: table, ring, dirty flag, the observer's events and the store. For a
  key the table holds it returns true, the key has no entry afterwards, and the ring
  loses the address exactly when the key is a single address whose entry had reason
  \<open>BanReasonNodeMisbehaving\<close>.
\<close>

theorem Unban_effect:
  "(find_entry st key = None \<longrightarrow> Unban key write_ok now st = (False, st))
   \<and> (\<forall>e. find_entry st key = Some e \<longrightarrow>
        fst (Unban key write_ok now st)
        \<and> find_entry (snd (Unban key write_ok now st)) key = None
        \<and> m_misbehaving_addrs (snd (Unban key write_ok now st))
            = (case IsSingleAddr key of
                 Some addr \<Rightarrow>
                   if banReason e = BanReasonNodeMisbehaving
                   then (m_misbehaving_addrs st)
                          \<lparr>cb_items := remove1 addr (cb_items (m_misbehaving_addrs st))\<rparr>
                   else m_misbehaving_addrs st
               | None \<Rightarrow> m_misbehaving_addrs st))"
proof (intro conjI allI impI)
  assume "find_entry st key = None"
  then show "Unban key write_ok now st = (False, st)" by (rule Unban_absent)
next
  fix e assume present: "find_entry st key = Some e"
  show "fst (Unban key write_ok now st)"
    using present by (cases key) (simp_all add: find_entry_def Unban_single Unban_range)
  show "find_entry (snd (Unban key write_ok now st)) key = None"
    using present
    by (cases key)
       (simp_all add: find_entry_def Unban_single Unban_range DumpBanlist_dirty_fields
          BannedListChanged_signal_fields map_of_swept_delete)
  show "m_misbehaving_addrs (snd (Unban key write_ok now st))
            = (case IsSingleAddr key of
                 Some addr \<Rightarrow>
                   if banReason e = BanReasonNodeMisbehaving
                   then (m_misbehaving_addrs st)
                          \<lparr>cb_items := remove1 addr (cb_items (m_misbehaving_addrs st))\<rparr>
                   else m_misbehaving_addrs st
               | None \<Rightarrow> m_misbehaving_addrs st)"
    using present
    by (cases key)
       (simp_all add: find_entry_def Unban_single Unban_range DumpBanlist_dirty_fields
          BannedListChanged_signal_fields cb_erase_find_def)
qed

theorem Unban_effect_witness:
  "Unban (SingleAddr 7) True 10 BanMan_ring_of_1 = (False, BanMan_ring_of_1)
   \<and> fst (Unban (SingleAddr 1) True 10 BanMan_ring_of_1)
   \<and> find_entry (snd (Unban (SingleAddr 1) True 10 BanMan_ring_of_1)) (SingleAddr 1) = None
   \<and> m_misbehaving_addrs (snd (Unban (SingleAddr 1) True 10 BanMan_ring_of_1))
       = \<lparr>cb_capacity = 1, cb_items = []\<rparr>"
proof -
  have absent: "find_entry BanMan_ring_of_1 (SingleAddr 7) = None"
    by (simp add: find_entry_def BanMan_ring_of_1_def BanMan_idle_def)
  have present: "find_entry BanMan_ring_of_1 (SingleAddr 1)
      = Some (ban_entry_of 0 60 BanReasonNodeMisbehaving)"
    by (simp add: find_entry_def BanMan_ring_of_1_def BanMan_idle_def)
  have ring: "m_misbehaving_addrs BanMan_ring_of_1 = \<lparr>cb_capacity = 1, cb_items = [1]\<rparr>"
    by (simp add: BanMan_ring_of_1_def BanMan_idle_def)
  from Unban_effect [of BanMan_ring_of_1 "SingleAddr 7" True 10] absent
  have "Unban (SingleAddr 7) True 10 BanMan_ring_of_1 = (False, BanMan_ring_of_1)"
    by simp
  moreover
  from Unban_effect [of BanMan_ring_of_1 "SingleAddr 1" True 10] present
  have "fst (Unban (SingleAddr 1) True 10 BanMan_ring_of_1)
      \<and> find_entry (snd (Unban (SingleAddr 1) True 10 BanMan_ring_of_1)) (SingleAddr 1) = None
      \<and> m_misbehaving_addrs (snd (Unban (SingleAddr 1) True 10 BanMan_ring_of_1))
          = \<lparr>cb_capacity = 1, cb_items = []\<rparr>"
    by (simp add: ring ban_entry_of_def)
  ultimately show ?thesis by simp
qed

text \<open>
  C9. Every \<open>Unban\<close> that returns true hands one snapshot to the writer of the store
  before it returns, whatever the reason of the removed entry: the snapshot is the table
  as the call leaves it, the dirty flag ends clear exactly when the write succeeds, and
  the store then holds that snapshot.
\<close>

theorem Unban_flushes:
  assumes "fst (Unban key write_ok now st)"
  shows "db_writes (snd (Unban key write_ok now st))
           = db_writes st @ [snapshot (snd (Unban key write_ok now st))]
         \<and> m_is_dirty (snd (Unban key write_ok now st)) = (\<not> write_ok)
         \<and> db_file (snd (Unban key write_ok now st))
           = (if write_ok then Some (snapshot (snd (Unban key write_ok now st)))
              else db_file st)"
proof (cases "find_entry st key")
  case None
  with assms show ?thesis by (simp add: Unban_absent)
next
  case (Some e)
  then show ?thesis
    by (cases key)
       (simp_all add: find_entry_def Unban_single Unban_range DumpBanlist_dirty_fields
          BannedListChanged_signal_fields)
qed

theorem Unban_flushes_witness:
  "fst (Unban (SingleAddr 1) True 10 BanMan_ring_of_1)
   \<and> db_writes BanMan_ring_of_1 = []
   \<and> snapshot (snd (Unban (SingleAddr 1) True 10 BanMan_ring_of_1)) = []
   \<and> db_writes (snd (Unban (SingleAddr 1) True 10 BanMan_ring_of_1)) = [[]]
   \<and> \<not> m_is_dirty (snd (Unban (SingleAddr 1) True 10 BanMan_ring_of_1))
   \<and> db_file (snd (Unban (SingleAddr 1) True 10 BanMan_ring_of_1)) = Some []"
proof -
  have present: "map_of (m_banned_addrs BanMan_ring_of_1) 1
      = Some (ban_entry_of 0 60 BanReasonNodeMisbehaving)"
    by (simp add: BanMan_ring_of_1_def BanMan_idle_def)
  have removed: "fst (Unban (SingleAddr 1) True 10 BanMan_ring_of_1)"
    using Unban_single [OF present, of True 10] by simp
  have before: "db_writes BanMan_ring_of_1 = []"
    by (simp add: BanMan_ring_of_1_def BanMan_idle_def)
  have snap: "snapshot (snd (Unban (SingleAddr 1) True 10 BanMan_ring_of_1)) = []"
    using Unban_single [OF present, of True 10]
    by (simp add: snapshot_def DumpBanlist_dirty_fields
        BannedListChanged_signal_fields merge_banned_def BanMan_ring_of_1_def BanMan_idle_def)
  from Unban_flushes [OF removed] removed before snap show ?thesis by simp
qed

section \<open>Ban\<close>

lemma entry_at_index_entry: "entry_at (index_entry k m) k = entry_at m k"
  by (simp add: entry_at_def index_entry_def update_conv' CBanEntry_null_def split: option.splits)



lemma index_key_fields:
  "m_misbehaving_addrs (index_key key st) = m_misbehaving_addrs st"
  "m_is_dirty (index_key key st) = m_is_dirty st"
  "ui_events (index_key key st) = ui_events st"
  "db_writes (index_key key st) = db_writes st"
  "db_file (index_key key st) = db_file st"
  "m_client_interface (index_key key st) = m_client_interface st"
  "m_default_ban_time (index_key key st) = m_default_ban_time st"
  by (cases key; simp add: index_key_def)+



lemma Ban_locked_eq:
  "Ban_locked key new st =
     (if ban_rejected (existing_entry st key) new then Inr (False, index_key key st)
      else if ban_applies (existing_entry st key) new then
        (case Ban_misbehaving_limit key (existing_entry st key) new
                (banReason (existing_entry st key) = BanReasonNodeMisbehaving
                 \<and> banReason new \<noteq> BanReasonNodeMisbehaving)
                (index_key key st) of
           Inl a \<Rightarrow> Inl a
         | Inr st2 \<Rightarrow> Inr (True, (assign_entry key new st2)\<lparr>m_is_dirty := True\<rparr>))
      else Inr (False, index_key key st))"
proof (cases key)
  case (SingleAddr a)
  show ?thesis
    unfolding SingleAddr
    using entry_at_index_entry [of a "m_banned_addrs st"]
    by (simp add: Ban_locked_def Let_def existing_entry_def find_entry_def index_key_def
        ban_rejected_def ban_applies_def entry_at_def)
next
  case (Range n)
  show ?thesis
    unfolding Range
    using entry_at_index_entry [of "Range n" "m_banned_subnets st"]
    by (simp add: Ban_locked_def Let_def existing_entry_def find_entry_def index_key_def
        ban_rejected_def ban_applies_def entry_at_def)
qed



text \<open>
  When the locked block of \<open>Ban\<close> returns: always with an unbounded ring, and with a
  bounded one for every single address that already has a ban or is not the front of the
  ring.
\<close>

lemma Ban_locked_returns_unbounded:
  "cb_capacity (m_misbehaving_addrs st) = 0 \<Longrightarrow>
   \<exists>applied st'. Ban_locked key new st = Inr (applied, st')"
  by (auto simp: Ban_locked_eq Ban_misbehaving_limit_def index_key_fields)

lemma Ban_locked_returns_single:
  assumes "nBanUntil (existing_entry st (SingleAddr a)) \<noteq> 0
           \<or> a \<notin> set (take 1 (cb_items (m_misbehaving_addrs st)))"
  shows "\<exists>applied st'. Ban_locked (SingleAddr a) new st = Inr (applied, st')"
  using assms
  by (cases "cb_items (m_misbehaving_addrs st)")
     (auto simp: Ban_locked_eq Ban_misbehaving_limit_def index_key_fields cb_full_def)




lemma Ban_eq:
  "Ban key ban_reason ban_time_offset since_unix_epoch write_ok now st =
     (case Ban_locked key (requested_entry st now ban_reason ban_time_offset since_unix_epoch) st of
        Inl a \<Rightarrow> Inl a
      | Inr r \<Rightarrow>
          if \<not> fst r then Inr (snd r)
          else if ban_reason = BanReasonManuallyAdded
               then Inr (DumpBanlist write_ok now (BannedListChanged_signal (snd r)))
               else Inr (BannedListChanged_signal (snd r)))"
  by (simp add: Ban_def requested_entry_def Let_def split: sum.splits prod.splits)

text \<open>
  C10. A call of \<open>Ban\<close> that does not apply, because the existing reason is
  \<open>BanReasonManuallyAdded\<close> and the new one is not, or because the existing ban is at
  least as long and there is no reason upgrade, returns with the dirty flag as it was,
  no call to the observer and nothing handed to the writer of the store, for every
  requested reason, \<open>BanReasonManuallyAdded\<close> included.
\<close>

theorem Ban_not_applied_is_silent:
  assumes "ban_rejected (existing_entry st key)
             (requested_entry st now ban_reason ban_time_offset since_unix_epoch)
           \<or> \<not> ban_applies (existing_entry st key)
             (requested_entry st now ban_reason ban_time_offset since_unix_epoch)"
  shows "\<exists>st'. Ban key ban_reason ban_time_offset since_unix_epoch write_ok now st = Inr st'
           \<and> m_is_dirty st' = m_is_dirty st
           \<and> ui_events st' = ui_events st
           \<and> db_writes st' = db_writes st
           \<and> db_file st' = db_file st"
  using assms by (auto simp: Ban_eq Ban_locked_eq index_key_fields)

theorem Ban_not_applied_is_silent_witness:
  "Ban (SingleAddr 1) BanReasonManuallyAdded 30 False True 10 BanMan_until_100
     = Inr BanMan_until_100
   \<and> \<not> ban_applies (existing_entry BanMan_until_100 (SingleAddr 1))
         (requested_entry BanMan_until_100 10 BanReasonManuallyAdded 30 False)"
proof -
  have pre: "\<not> ban_applies (existing_entry BanMan_until_100 (SingleAddr 1))
         (requested_entry BanMan_until_100 10 BanReasonManuallyAdded 30 False)"
    by (simp add: ban_applies_def existing_entry_def find_entry_def requested_entry_def
        ban_until_def int64_wrap_def BanMan_until_100_def BanMan_idle_def ban_entry_of_def)
  have run: "Ban (SingleAddr 1) BanReasonManuallyAdded 30 False True 10 BanMan_until_100
     = Inr BanMan_until_100"
    using Ban_not_applied_is_silent
      [of BanMan_until_100 "SingleAddr 1" 10 BanReasonManuallyAdded 30 False True] pre
    by (simp add: Ban_def Ban_locked_def index_entry_def entry_at_def ban_until_def int64_wrap_def
        BanMan_until_100_def BanMan_idle_def ban_entry_of_def Let_def)
  with pre show ?thesis by simp
qed

section \<open>The constructor\<close>

lemma SetBanned_loop_addrs:
  "distinct (map fst banmap) \<Longrightarrow>
   map_of (fst (SetBanned_loop banmap (addrs, subnets))) a
     = (case map_of banmap (SingleAddr a) of Some e \<Rightarrow> Some e | None \<Rightarrow> map_of addrs a)"
proof (induction banmap arbitrary: addrs subnets)
  case Nil
  then show ?case by simp
next
  case (Cons p rest)
  obtain k e where p: "p = (k, e)" by (cases p)
  from Cons.prems p have fresh: "map_of rest k = None" and d: "distinct (map fst rest)"
    by (simp_all add: map_of_eq_None_iff)
  show ?case
  proof (cases k)
    case (SingleAddr b)
    with Cons.IH [OF d] p fresh show ?thesis
      by (simp add: update_conv' split: option.splits)
  next
    case (Range n)
    with Cons.IH [OF d] p show ?thesis
      by simp
  qed
qed

lemma SetBanned_loop_subnets:
  "distinct (map fst banmap) \<Longrightarrow>
   map_of (snd (SetBanned_loop banmap (addrs, subnets))) (Range n)
     = (case map_of banmap (Range n) of Some e \<Rightarrow> Some e | None \<Rightarrow> map_of subnets (Range n))"
proof (induction banmap arbitrary: addrs subnets)
  case Nil
  then show ?case by simp
next
  case (Cons p rest)
  obtain k e where p: "p = (k, e)" by (cases p)
  from Cons.prems p have fresh: "map_of rest k = None" and d: "distinct (map fst rest)"
    by (simp_all add: map_of_eq_None_iff)
  show ?case
  proof (cases k)
    case (SingleAddr b)
    with Cons.IH [OF d] p show ?thesis
      by simp
  next
    case (Range m)
    with Cons.IH [OF d] p fresh show ?thesis
      by (simp add: update_conv' split: option.splits)
  qed
qed

lemma SetBanned_loop_subnets_ranges:
  "\<forall>k \<in> fst ` set subnets. IsSingleAddr k = None \<Longrightarrow>
   \<forall>k \<in> fst ` set (snd (SetBanned_loop banmap (addrs, subnets))). IsSingleAddr k = None"
proof (induction banmap arbitrary: addrs subnets)
  case Nil
  then show ?case by simp
next
  case (Cons p rest)
  obtain k e where p: "p = (k, e)" by (cases p)
  show ?case
  proof (cases k)
    case (SingleAddr b)
    with Cons p show ?thesis by simp
  next
    case (Range m)
    have "\<forall>k \<in> fst ` set (AList.update (Range m) e subnets). IsSingleAddr k = None"
      using Cons.prems by (simp add: dom_update)
    from Cons.IH [OF this] p Range show ?thesis by simp
  qed
qed

lemma SetBanned_loop_distinct:
  "distinct (map fst addrs) \<Longrightarrow> distinct (map fst subnets) \<Longrightarrow>
   distinct (map fst (fst (SetBanned_loop banmap (addrs, subnets))))
   \<and> distinct (map fst (snd (SetBanned_loop banmap (addrs, subnets))))"
proof (induction banmap arbitrary: addrs subnets)
  case Nil
  then show ?case by simp
next
  case (Cons p rest)
  obtain k e where p: "p = (k, e)" by (cases p)
  show ?case
  proof (cases k)
    case (SingleAddr b)
    with Cons.IH [of "AList.update b e addrs" subnets] Cons.prems p show ?thesis
      by (simp add: distinct_update)
  next
    case (Range m)
    with Cons.IH [of addrs "AList.update (Range m) e subnets"] Cons.prems p show ?thesis
      by (simp add: distinct_update)
  qed
qed

lemma map_of_filter_distinct:
  "distinct (map fst m) \<Longrightarrow>
   map_of (filter (\<lambda>p. P (snd p)) m) k
     = (case map_of m k of None \<Rightarrow> None | Some e \<Rightarrow> if P e then Some e else None)"
proof (induction m)
  case Nil
  then show ?case by simp
next
  case (Cons p m)
  then have "fst p \<notin> fst ` set m" by simp
  then have "map_of (filter (\<lambda>p. P (snd p)) m) (fst p) = None"
    by (rule map_of_filter_absent)
  with Cons show ?case by (cases p) auto
qed

lemma find_entry_SetBanned:
  assumes "distinct (map fst banmap)"
  shows "find_entry (SetBanned banmap st) key = map_of banmap key"
proof (cases key)
  case (SingleAddr a)
  with SetBanned_loop_addrs [OF assms, of "[]" "[]" a] show ?thesis
    by (simp add: find_entry_def SetBanned_def Let_def split: option.splits)
next
  case (Range n)
  with SetBanned_loop_subnets [OF assms, of "[]" "[]" n] show ?thesis
    by (simp add: find_entry_def SetBanned_def Let_def split: option.splits)
qed

lemma ended_before_find_entry:
  assumes "distinct (map fst (m_banned_addrs st))"
    and "distinct (map fst (m_banned_subnets st))"
    and "\<forall>k \<in> fst ` set (m_banned_subnets st). IsSingleAddr k = None"
  shows "ended_before now st \<longleftrightarrow> (\<exists>k e. find_entry st k = Some e \<and> nBanUntil e < now)"
proof
  assume "ended_before now st"
  then consider
    (sub) k e where "(k, e) \<in> set (m_banned_subnets st)" "nBanUntil e < now"
    | (addr) a e where "(a, e) \<in> set (m_banned_addrs st)" "nBanUntil e < now"
    by (auto simp: ended_before_def list_ex_iff)
  then show "\<exists>k e. find_entry st k = Some e \<and> nBanUntil e < now"
  proof cases
    case sub
    with assms(3) have "IsSingleAddr k = None" by force
    moreover from sub assms(2) have "map_of (m_banned_subnets st) k = Some e" by simp
    ultimately have "find_entry st k = Some e" by (simp add: find_entry_def)
    with sub show ?thesis by blast
  next
    case addr
    with assms(1) have "find_entry st (SingleAddr a) = Some e" by (simp add: find_entry_def)
    with addr show ?thesis by blast
  qed
next
  assume "\<exists>k e. find_entry st k = Some e \<and> nBanUntil e < now"
  then obtain k e where f: "find_entry st k = Some e" and x: "nBanUntil e < now" by blast
  show "ended_before now st"
  proof (cases k)
    case (SingleAddr a)
    with f have "(a, e) \<in> set (m_banned_addrs st)"
      by (simp add: find_entry_def map_of_SomeD)
    with x show ?thesis by (force simp: ended_before_def list_ex_iff)
  next
    case (Range n)
    with f have "(k, e) \<in> set (m_banned_subnets st)"
      by (simp add: find_entry_def map_of_SomeD)
    with x show ?thesis by (force simp: ended_before_def list_ex_iff)
  qed
qed

lemma SetBanned_wellformed:
  "distinct (map fst (m_banned_addrs (SetBanned banmap st)))"
  "distinct (map fst (m_banned_subnets (SetBanned banmap st)))"
  "\<forall>k \<in> fst ` set (m_banned_subnets (SetBanned banmap st)). IsSingleAddr k = None"
  using SetBanned_loop_distinct [of "[]" "[]" banmap]
    SetBanned_loop_subnets_ranges [of "[]" banmap "[]"]
  by (simp_all add: SetBanned_def Let_def)

lemma find_entry_SweepBanned:
  assumes "distinct (map fst (m_banned_addrs st))"
    and "distinct (map fst (m_banned_subnets st))"
  shows "find_entry (SweepBanned now st) key
     = (case find_entry st key of
          None \<Rightarrow> None
        | Some e \<Rightarrow> if nBanUntil e < now then None else Some e)"
  using map_of_filter_distinct [OF assms(1), of "\<lambda>e. \<not> now > nBanUntil e"]
    map_of_filter_distinct [OF assms(2), of "\<lambda>e. \<not> now > nBanUntil e"]
  by (cases key) (simp_all add: find_entry_def SweepBanned_fields split: option.splits)

lemma BanMan_new_read_ok:
  "BanMan_new (Some banmap) ci dbt write_ok now =
     SweepBanned now
       ((SetBanned banmap
          \<lparr>m_banned_addrs = [], m_banned_subnets = [],
           m_misbehaving_addrs = \<lparr>cb_capacity = 0, cb_items = []\<rparr>,
           m_is_dirty = False, m_default_ban_time = dbt, m_client_interface = ci,
           ui_events = (if ci then [InitMessage] else []),
           db_file = Some banmap, db_writes = []\<rparr>)\<lparr>m_is_dirty := False\<rparr>)"
  by (simp add: BanMan_new_def SetBannedSetDirty_def)

lemma find_entry_dirty_update: "find_entry (st\<lparr>m_is_dirty := d\<rparr>) key = find_entry st key"
  by (cases key) (simp_all add: find_entry_def)

lemma BanMan_new_read_failed:
  "BanMan_new None ci dbt write_ok now =
     \<lparr>m_banned_addrs = [], m_banned_subnets = [],
      m_misbehaving_addrs = \<lparr>cb_capacity = 0, cb_items = []\<rparr>,
      m_is_dirty = \<not> write_ok, m_default_ban_time = dbt, m_client_interface = ci,
      ui_events = (if ci then [InitMessage] else []),
      db_file = (if write_ok then Some [] else None), db_writes = [[]]\<rparr>"
  by (simp add: BanMan_new_def SetBannedSetDirty_def DumpBanlist_eq ended_before_def
      SweepBanned_def sweep_entries_fst sweep_entries_snd snapshot_def merge_banned_def Let_def)

text \<open>
  What the constructor leaves, from the code's sweep (which keeps an entry with
  \<open>nBanUntil = now\<close>).
\<close>

lemma BanMan_new_fields:
  "(distinct (map fst (banmap :: ('a, 'n) banmap_t)) \<longrightarrow>
      (\<forall>key. find_entry (BanMan_new (Some banmap) ci dbt write_ok now) key
                = (case map_of banmap key of
                     None \<Rightarrow> None
                   | Some e \<Rightarrow> if nBanUntil e < now then None else Some e))
      \<and> m_is_dirty (BanMan_new (Some banmap) ci dbt write_ok now)
          = list_ex (\<lambda>p. nBanUntil (snd p) < now) banmap
      \<and> db_writes (BanMan_new (Some banmap) ci dbt write_ok now) = [])
   \<and> m_banned_addrs (BanMan_new (None :: ('a, 'n) banmap_t option) ci dbt write_ok now) = []
   \<and> m_banned_subnets (BanMan_new (None :: ('a, 'n) banmap_t option) ci dbt write_ok now) = []
   \<and> db_writes (BanMan_new (None :: ('a, 'n) banmap_t option) ci dbt write_ok now) = [[]]
   \<and> m_is_dirty (BanMan_new (None :: ('a, 'n) banmap_t option) ci dbt write_ok now)
       = (\<not> write_ok)
   \<and> db_file (BanMan_new (None :: ('a, 'n) banmap_t option) ci dbt write_ok now)
       = (if write_ok then Some [] else None)"
proof (intro conjI impI)
  assume d: "distinct (map fst banmap)"
  define st0 :: "('a, 'n) BanMan" where
    "st0 = \<lparr>m_banned_addrs = [], m_banned_subnets = [],
           m_misbehaving_addrs = \<lparr>cb_capacity = 0, cb_items = []\<rparr>,
           m_is_dirty = False, m_default_ban_time = dbt, m_client_interface = ci,
           ui_events = (if ci then [InitMessage] else []),
           db_file = Some banmap, db_writes = []\<rparr>"
  define restored where "restored = (SetBanned banmap st0)\<lparr>m_is_dirty := False\<rparr>"
  have new: "BanMan_new (Some banmap) ci dbt write_ok now = SweepBanned now restored"
    unfolding restored_def st0_def by (rule BanMan_new_read_ok)
  have wf: "distinct (map fst (m_banned_addrs restored))"
    "distinct (map fst (m_banned_subnets restored))"
    "\<forall>k \<in> fst ` set (m_banned_subnets restored). IsSingleAddr k = None"
    using SetBanned_wellformed [of banmap st0] by (simp_all add: restored_def)
  have entries: "find_entry restored key = map_of banmap key" for key
    using find_entry_SetBanned [OF d, of st0 key]
    by (simp add: restored_def find_entry_dirty_update)
  show "\<forall>key. find_entry (BanMan_new (Some banmap) ci dbt write_ok now) key
                = (case map_of banmap key of
                     None \<Rightarrow> None
                   | Some e \<Rightarrow> if nBanUntil e < now then None else Some e)"
    by (simp add: new find_entry_SweepBanned [OF wf(1,2)] entries)
  have "ended_before now restored \<longleftrightarrow> (\<exists>k e. map_of banmap k = Some e \<and> nBanUntil e < now)"
    by (simp add: ended_before_find_entry [OF wf] entries)
  also have "\<dots> \<longleftrightarrow> list_ex (\<lambda>p. nBanUntil (snd p) < now) banmap"
    using d by (force simp: list_ex_iff)
  finally show "m_is_dirty (BanMan_new (Some banmap) ci dbt write_ok now)
          = list_ex (\<lambda>p. nBanUntil (snd p) < now) banmap"
    by (simp add: new SweepBanned_fields restored_def)
  show "db_writes (BanMan_new (Some banmap) ci dbt write_ok now) = []"
    by (simp add: new SweepBanned_fields restored_def SetBanned_def st0_def Let_def)
qed (simp_all add: BanMan_new_read_failed)

text \<open>
  C6, as the code has it. When the read of the store succeeds (the stored map has one
  entry per key), the constructor restores the entries, marks the state clean and then
  sweeps: afterwards a key has its stored entry when that entry is still active
  (\<open>now < nBanUntil\<close>) and no entry when the stored one ran out before \<open>now\<close>
  (\<open>nBanUntil < now\<close>) or the store had none; nothing has been written to the store;
  the dirty flag is clear when no stored entry had expired and set when the sweep
  discarded a stored entry. When the read fails, the table is empty, the empty snapshot
  is handed to the writer at once, and the flag ends clear exactly when that write
  succeeds.
\<close>

theorem BanMan_new_effect:
  "(distinct (map fst (banmap :: ('a, 'n) banmap_t)) \<longrightarrow>
      (\<forall>key e. map_of banmap key = Some e \<and> now < nBanUntil e \<longrightarrow>
         find_entry (BanMan_new (Some banmap) ci dbt write_ok now) key = Some e)
      \<and> (\<forall>key e. map_of banmap key = Some e \<and> nBanUntil e < now \<longrightarrow>
         find_entry (BanMan_new (Some banmap) ci dbt write_ok now) key = None)
      \<and> (\<forall>key. map_of banmap key = None \<longrightarrow>
         find_entry (BanMan_new (Some banmap) ci dbt write_ok now) key = None)
      \<and> (list_all (\<lambda>p. now < nBanUntil (snd p)) banmap \<longrightarrow>
         \<not> m_is_dirty (BanMan_new (Some banmap) ci dbt write_ok now))
      \<and> (list_ex (\<lambda>p. nBanUntil (snd p) < now) banmap \<longrightarrow>
         m_is_dirty (BanMan_new (Some banmap) ci dbt write_ok now))
      \<and> db_writes (BanMan_new (Some banmap) ci dbt write_ok now) = [])
   \<and> m_banned_addrs (BanMan_new (None :: ('a, 'n) banmap_t option) ci dbt write_ok now) = []
   \<and> m_banned_subnets (BanMan_new (None :: ('a, 'n) banmap_t option) ci dbt write_ok now) = []
   \<and> db_writes (BanMan_new (None :: ('a, 'n) banmap_t option) ci dbt write_ok now) = [[]]
   \<and> m_is_dirty (BanMan_new (None :: ('a, 'n) banmap_t option) ci dbt write_ok now)
       = (\<not> write_ok)
   \<and> db_file (BanMan_new (None :: ('a, 'n) banmap_t option) ci dbt write_ok now)
       = (if write_ok then Some [] else None)"
proof -
  have read_ok:
    "(\<forall>key e. map_of banmap key = Some e \<and> now < nBanUntil e \<longrightarrow>
         find_entry (BanMan_new (Some banmap) ci dbt write_ok now) key = Some e)
      \<and> (\<forall>key e. map_of banmap key = Some e \<and> nBanUntil e < now \<longrightarrow>
         find_entry (BanMan_new (Some banmap) ci dbt write_ok now) key = None)
      \<and> (\<forall>key. map_of banmap key = None \<longrightarrow>
         find_entry (BanMan_new (Some banmap) ci dbt write_ok now) key = None)
      \<and> (list_all (\<lambda>p. now < nBanUntil (snd p)) banmap \<longrightarrow>
         \<not> m_is_dirty (BanMan_new (Some banmap) ci dbt write_ok now))
      \<and> (list_ex (\<lambda>p. nBanUntil (snd p) < now) banmap \<longrightarrow>
         m_is_dirty (BanMan_new (Some banmap) ci dbt write_ok now))
      \<and> db_writes (BanMan_new (Some banmap) ci dbt write_ok now) = []"
    if d: "distinct (map fst banmap)"
  proof -
    from BanMan_new_fields [of banmap ci dbt write_ok now] d
    have entries: "\<forall>key. find_entry (BanMan_new (Some banmap) ci dbt write_ok now) key
        = (case map_of banmap key of
             None \<Rightarrow> None
           | Some e \<Rightarrow> if nBanUntil e < now then None else Some e)"
      and dirty: "m_is_dirty (BanMan_new (Some banmap) ci dbt write_ok now)
        = list_ex (\<lambda>p. nBanUntil (snd p) < now) banmap"
      and writes: "db_writes (BanMan_new (Some banmap) ci dbt write_ok now) = []"
      by simp_all
    have active: "\<not> list_ex (\<lambda>p. nBanUntil (snd p) < now) banmap"
      if "list_all (\<lambda>p. now < nBanUntil (snd p)) banmap"
      using that by (auto simp: list_all_iff list_ex_iff)
    show ?thesis
      using active by (simp add: entries dirty writes)
  qed
  from BanMan_new_fields [of banmap ci dbt write_ok now] read_ok show ?thesis
    by simp
qed

theorem BanMan_new_effect_witness:
  "distinct (map fst banlist_one_stale)
   \<and> find_entry (BanMan_new (Some banlist_one_stale) True 86400 True 100) (SingleAddr 1) = None
   \<and> find_entry (BanMan_new (Some banlist_one_stale) True 86400 True 100) (Range 0)
       = Some (ban_entry_of 0 200 BanReasonManuallyAdded)
   \<and> m_is_dirty (BanMan_new (Some banlist_one_stale) True 86400 True 100)
   \<and> db_writes (BanMan_new (Some banlist_one_stale) True 86400 True 100) = []
   \<and> \<not> m_is_dirty (BanMan_new (Some banlist_one_stale) True 86400 True 10)"
proof -
  have d: "distinct (map fst banlist_one_stale)"
    by (simp add: banlist_one_stale_def)
  have stored: "map_of banlist_one_stale (SingleAddr 1)
        = Some (ban_entry_of 0 50 BanReasonManuallyAdded)"
    "map_of banlist_one_stale (Range 0) = Some (ban_entry_of 0 200 BanReasonManuallyAdded)"
    "list_ex (\<lambda>p. nBanUntil (snd p) < 100) banlist_one_stale"
    "list_all (\<lambda>p. 10 < nBanUntil (snd p)) banlist_one_stale"
    "nBanUntil (ban_entry_of 0 50 BanReasonManuallyAdded) < 100"
    "100 < nBanUntil (ban_entry_of 0 200 BanReasonManuallyAdded)"
    by (simp_all add: banlist_one_stale_def ban_entry_of_def)
  from BanMan_new_effect [of banlist_one_stale 100 True 86400 True] d stored
  have at_100:
    "find_entry (BanMan_new (Some banlist_one_stale) True 86400 True 100) (SingleAddr 1) = None"
    "find_entry (BanMan_new (Some banlist_one_stale) True 86400 True 100) (Range 0)
       = Some (ban_entry_of 0 200 BanReasonManuallyAdded)"
    "m_is_dirty (BanMan_new (Some banlist_one_stale) True 86400 True 100)"
    "db_writes (BanMan_new (Some banlist_one_stale) True 86400 True 100) = []"
    by blast+
  from BanMan_new_effect [of banlist_one_stale 10 True 86400 True] d stored
  have "\<not> m_is_dirty (BanMan_new (Some banlist_one_stale) True 86400 True 10)"
    by blast
  with d at_100 show ?thesis by simp
qed

text \<open>
  The claim as the spec words it fails: the constructor marks the state clean before it
  sweeps, so a stored ban that ran out at time 50, read at time 100, is swept and the
  start sequence ends with the dirty flag set.
\<close>

theorem BanMan_new_ends_clean_counterexample:
  "m_is_dirty (BanMan_new (Some banlist_one_stale) True 86400 True 100)
   \<and> m_banned_addrs (BanMan_new (Some banlist_one_stale) True 86400 True 100) = []
   \<and> m_banned_subnets (BanMan_new (Some banlist_one_stale) True 86400 True 100)
       = [(Range 0, ban_entry_of 0 200 BanReasonManuallyAdded)]"
  by (simp add: BanMan_new_read_ok SetBanned_def SweepBanned_fields ended_before_def
      banlist_one_stale_def ban_entry_of_def Let_def)

section \<open>The bounded ring\<close>

lemma update_fresh_append: "k \<notin> fst ` set m \<Longrightarrow> AList.update k v m = m @ [(k, v)]"
  by (induction m) auto

lemma update_last_entry:
  "k \<notin> fst ` set m \<Longrightarrow> AList.update k v (m @ [(k, v0)]) = m @ [(k, v)]"
  by (induction m) auto

lemma delete_front: "b \<notin> fst ` set m \<Longrightarrow> AList.delete b ((b, eb) # m) = m"
  by simp

lemma map_of_fresh: "a \<notin> fst ` set m \<Longrightarrow> map_of m a = None"
  by (simp add: map_of_eq_None_iff)

lemma existing_entry_fresh:
  "a \<notin> fst ` set (m_banned_addrs st) \<Longrightarrow> existing_entry st (SingleAddr a) = CBanEntry_null"
  by (simp add: existing_entry_def find_entry_def map_of_fresh)

lemma index_key_fresh:
  "a \<notin> fst ` set (m_banned_addrs st) \<Longrightarrow>
   index_key (SingleAddr a) st
     = st\<lparr>m_banned_addrs := m_banned_addrs st @ [(a, CBanEntry_null)]\<rparr>"
  by (simp add: index_key_def index_entry_def map_of_fresh update_fresh_append)

lemma Ban_locked_fresh_misbehaving:
  assumes inv: "ring_tracks C st" and C: "0 < C"
    and fresh: "a \<notin> fst ` set (m_banned_addrs st)"
    and mis: "banReason new = BanReasonNodeMisbehaving"
    and pos: "0 < nBanUntil new"
  shows "\<exists>st'. Ban_locked (SingleAddr a) new st = Inr (True, st')
           \<and> m_banned_addrs st'
               = (if length (m_banned_addrs st) = C then tl (m_banned_addrs st)
                  else m_banned_addrs st) @ [(a, new)]
           \<and> m_misbehaving_addrs st'
               = \<lparr>cb_capacity = C,
                  cb_items = map fst ((if length (m_banned_addrs st) = C then tl (m_banned_addrs st)
                                        else m_banned_addrs st) @ [(a, new)])\<rparr>
           \<and> m_banned_subnets st' = []
           \<and> m_default_ban_time st' = m_default_ban_time st
           \<and> m_client_interface st' = m_client_interface st"
proof -
  from inv have cap: "cb_capacity (m_misbehaving_addrs st) = C"
    and items: "cb_items (m_misbehaving_addrs st) = map fst (m_banned_addrs st)"
    and dist: "distinct (map fst (m_banned_addrs st))"
    and sub: "m_banned_subnets st = []"
    by (simp_all add: ring_tracks_def)
  have ring: "m_misbehaving_addrs st
      = \<lparr>cb_capacity = C, cb_items = map fst (m_banned_addrs st)\<rparr>"
    using cap items by (cases "m_misbehaving_addrs st") simp
  have old: "existing_entry st (SingleAddr a) = CBanEntry_null"
    using fresh by (rule existing_entry_fresh)
  have applies: "\<not> ban_rejected CBanEntry_null new" "ban_applies CBanEntry_null new"
    using pos by (simp_all add: ban_rejected_def ban_applies_def CBanEntry_null_def)
  have nul: "nBanUntil CBanEntry_null = 0"
    by (simp add: CBanEntry_null_def)
  show ?thesis
  proof (cases "length (m_banned_addrs st) = C")
    case False
    then show ?thesis
      using fresh C mis sub
      by (simp add: Ban_locked_eq old applies index_key_fresh Ban_misbehaving_limit_def
          nul ring cb_full_def cb_push_back_def assign_entry_def update_last_entry)
  next
    case True
    with C obtain b eb es where es: "m_banned_addrs st = (b, eb) # es"
      by (cases "m_banned_addrs st") auto
    with dist fresh have nb: "b \<notin> fst ` set es" "b \<noteq> a" "a \<notin> fst ` set es"
      by auto
    then have del: "AList.delete b ((b, eb) # es @ [(a, CBanEntry_null)]) = es @ [(a, CBanEntry_null)]"
      by (intro delete_front) auto
    from True es C mis sub nb show ?thesis
      using del
      by (simp add: Ban_locked_eq old applies index_key_fresh [OF fresh]
          Ban_misbehaving_limit_def nul ring cb_full_def cb_push_back_def
          assign_entry_def update_last_entry del: delete_simps)
  qed
qed

lemma Ban_addr_fresh_misbehaving:
  assumes inv: "ring_tracks C st" and C: "0 < C"
    and fresh: "req_addr r \<notin> fst ` set (m_banned_addrs st)"
    and pos: "0 < nBanUntil (misbehaving_entry (m_default_ban_time st) r)"
  shows "\<exists>st'. Ban_addr (req_addr r) BanReasonNodeMisbehaving (req_offset r) (req_since_epoch r)
                 write_ok (req_time r) st = Inr st'
           \<and> ring_tracks C st'
           \<and> m_banned_addrs st'
               = drop (Suc (length (m_banned_addrs st)) - C)
                   (m_banned_addrs st @ [(req_addr r, misbehaving_entry (m_default_ban_time st) r)])
           \<and> m_default_ban_time st' = m_default_ban_time st"
proof -
  define new where "new = misbehaving_entry (m_default_ban_time st) r"
  have req: "requested_entry st (req_time r) BanReasonNodeMisbehaving (req_offset r)
      (req_since_epoch r) = new"
    by (simp add: requested_entry_def misbehaving_entry_def new_def)
  have mis: "banReason new = BanReasonNodeMisbehaving"
    by (simp add: new_def misbehaving_entry_def)
  from Ban_locked_fresh_misbehaving [OF inv C fresh mis] pos
  obtain st1 where
    run: "Ban_locked (SingleAddr (req_addr r)) new st = Inr (True, st1)"
    and addrs: "m_banned_addrs st1
        = (if length (m_banned_addrs st) = C then tl (m_banned_addrs st)
           else m_banned_addrs st) @ [(req_addr r, new)]"
    and ring: "m_misbehaving_addrs st1
        = \<lparr>cb_capacity = C,
           cb_items = map fst ((if length (m_banned_addrs st) = C then tl (m_banned_addrs st)
                                 else m_banned_addrs st) @ [(req_addr r, new)])\<rparr>"
    and sub: "m_banned_subnets st1 = []"
    and dbt: "m_default_ban_time st1 = m_default_ban_time st"
    unfolding new_def by blast
  from inv have dist: "distinct (map fst (m_banned_addrs st))"
    and len: "length (m_banned_addrs st) \<le> C"
    by (simp_all add: ring_tracks_def)
  have window: "(if length (m_banned_addrs st) = C then tl (m_banned_addrs st)
                 else m_banned_addrs st) @ [(req_addr r, new)]
      = drop (Suc (length (m_banned_addrs st)) - C) (m_banned_addrs st @ [(req_addr r, new)])"
    using len C by (cases "m_banned_addrs st") (auto simp: Suc_diff_le)
  have keys: "distinct (map fst ((if length (m_banned_addrs st) = C then tl (m_banned_addrs st)
                 else m_banned_addrs st) @ [(req_addr r, new)]))"
    using dist fresh by (cases "m_banned_addrs st") auto
  have short: "length ((if length (m_banned_addrs st) = C then tl (m_banned_addrs st)
                 else m_banned_addrs st) @ [(req_addr r, new)]) \<le> C"
    using len C by auto
  have result: "Ban_addr (req_addr r) BanReasonNodeMisbehaving (req_offset r) (req_since_epoch r)
                 write_ok (req_time r) st = Inr (BannedListChanged_signal st1)"
    by (simp add: Ban_addr_def Ban_eq req run)
  have "ring_tracks C (BannedListChanged_signal st1)"
    using keys short
    by (simp add: ring_tracks_def BannedListChanged_signal_fields addrs ring sub)
  with result addrs window dbt show ?thesis
    by (simp add: BannedListChanged_signal_fields new_def)
qed

lemma Ban_misbehaving_all_window:
  assumes C: "0 < C"
  shows "ring_tracks C (st :: ('a, 'n) BanMan) \<Longrightarrow> distinct (map req_addr (reqs :: 'a ban_request list))
    \<Longrightarrow> req_addr ` set reqs \<inter> fst ` set (m_banned_addrs st) = {}
    \<Longrightarrow> \<forall>r \<in> set reqs. 0 < nBanUntil (misbehaving_entry (m_default_ban_time st) r)
    \<Longrightarrow> \<exists>st'. Ban_misbehaving_all write_ok reqs st = Inr st'
           \<and> ring_tracks C st'
           \<and> m_banned_addrs st'
               = drop (length (m_banned_addrs st) + length reqs - C)
                   (m_banned_addrs st
                    @ map (\<lambda>r. (req_addr r, misbehaving_entry (m_default_ban_time st) r)) reqs)
           \<and> m_default_ban_time st' = m_default_ban_time st"
proof (induction reqs arbitrary: st)
  case Nil
  then show ?case by (simp add: ring_tracks_def)
next
  case (Cons r rest)
  define es where "es = m_banned_addrs st"
  define f :: "'a ban_request \<Rightarrow> 'a \<times> CBanEntry"
    where "f = (\<lambda>r. (req_addr r, misbehaving_entry (m_default_ban_time st) r))"
  from Cons.prems have fresh: "req_addr r \<notin> fst ` set (m_banned_addrs st)"
    and pos: "0 < nBanUntil (misbehaving_entry (m_default_ban_time st) r)"
    by auto
  from Ban_addr_fresh_misbehaving [OF Cons.prems(1) C fresh pos, of write_ok]
  obtain st1 where
    step: "Ban_addr (req_addr r) BanReasonNodeMisbehaving (req_offset r) (req_since_epoch r)
             write_ok (req_time r) st = Inr st1"
    and inv1: "ring_tracks C st1"
    and addrs1: "m_banned_addrs st1 = drop (Suc (length es) - C) (es @ [f r])"
    and dbt1: "m_default_ban_time st1 = m_default_ban_time st"
    unfolding es_def f_def by blast
  define A where "A = req_addr ` set rest"
  define B where "B = fst ` set (m_banned_addrs st1)"
  define K where "K = fst ` set es"
  have keys1: "B \<subseteq> insert (req_addr r) K"
    using set_drop_subset [of "Suc (length es) - C" "es @ [f r]"]
    by (auto simp: addrs1 f_def B_def K_def)
  have "req_addr r \<notin> A" and "A \<inter> K = {}"
    using Cons.prems(2,3) by (auto simp: es_def A_def K_def)
  with keys1 have "A \<inter> B = {}"
    by blast
  then have disj1: "req_addr ` set rest \<inter> fst ` set (m_banned_addrs st1) = {}"
    by (simp add: A_def B_def)
  from Cons.prems have d1: "distinct (map req_addr rest)"
    and pos1: "\<forall>r \<in> set rest. 0 < nBanUntil (misbehaving_entry (m_default_ban_time st1) r)"
    by (simp_all add: dbt1)
  from Cons.IH [OF inv1 d1 disj1 pos1]
  obtain st' where
    run: "Ban_misbehaving_all write_ok rest st1 = Inr st'"
    and inv': "ring_tracks C st'"
    and addrs': "m_banned_addrs st'
        = drop (length (m_banned_addrs st1) + length rest - C)
            (m_banned_addrs st1 @ map f rest)"
    and dbt': "m_default_ban_time st' = m_default_ban_time st1"
    unfolding f_def dbt1 by blast
  from Cons.prems(1) have len: "length es \<le> C"
    by (simp add: ring_tracks_def es_def)
  have "drop (length (m_banned_addrs st1) + length rest - C) (m_banned_addrs st1 @ map f rest)
      = drop (length es + length (r # rest) - C) (es @ map f (r # rest))"
  proof (cases "length es = C")
    case True
    with C obtain x xs where es: "es = x # xs" by (cases es) auto
    with True show ?thesis by (simp add: addrs1)
  next
    case False
    with len have "Suc (length es) - C = 0" by simp
    then show ?thesis by (simp add: addrs1)
  qed
  with step run inv' addrs' dbt' dbt1 show ?case
    by (simp add: es_def f_def)
qed

lemma IsBanned_no_subnets:
  "m_banned_subnets st = [] \<Longrightarrow>
   IsBanned contains now st a
     = (case map_of (m_banned_addrs st) a of None \<Rightarrow> False | Some e \<Rightarrow> now < nBanUntil e)"
  by (simp add: IsBanned_def split: option.splits)

lemma ring_tracks_SetMisbehavingLimit:
  "m_banned_addrs st = [] \<Longrightarrow> m_banned_subnets st = []
   \<Longrightarrow> cb_items (m_misbehaving_addrs st) = []
   \<Longrightarrow> ring_tracks C (SetMisbehavingLimit C st)"
  by (simp add: ring_tracks_def SetMisbehavingLimit_def cb_set_capacity_def)

text \<open>
  C4, as the code has it. With the capacity of the ring set to \<open>C \<ge> 1\<close> before any
  ban, after \<open>C + 1\<close> misbehaviour bans of distinct single addresses, each one applied
  as a new entry (its \<open>nBanUntil\<close>, the 64-bit sum of line 170, is positive), the first
  address has no entry in the exact-address map and is not banned at any time, and
  every later address has the entry its ban wrote and is banned at every time before
  that entry's \<open>nBanUntil\<close>.
\<close>

theorem ring_overflow_evicts_oldest:
  assumes "0 < C"
    and "length (reqs :: 'a ban_request list) = Suc C"
    and "distinct (map req_addr reqs)"
    and "\<forall>r \<in> set reqs. 0 < nBanUntil (misbehaving_entry (m_default_ban_time st) r)"
    and "m_banned_addrs (st :: ('a, 'n) BanMan) = []"
    and "m_banned_subnets st = []"
    and "cb_items (m_misbehaving_addrs st) = []"
  shows "\<exists>st'. Ban_misbehaving_all write_ok reqs (SetMisbehavingLimit C st) = Inr st'
           \<and> find_entry st' (SingleAddr (req_addr (hd reqs))) = None
           \<and> (\<forall>now. \<not> IsBanned contains now st' (req_addr (hd reqs)))
           \<and> (\<forall>r \<in> set (tl reqs).
                 find_entry st' (SingleAddr (req_addr r))
                   = Some (misbehaving_entry (m_default_ban_time st) r)
                 \<and> (\<forall>now. IsBanned contains now st' (req_addr r)
                            \<longleftrightarrow> now < nBanUntil (misbehaving_entry (m_default_ban_time st) r)))"
proof -
  define st0 where "st0 = SetMisbehavingLimit C st"
  define f :: "'a ban_request \<Rightarrow> 'a \<times> CBanEntry"
    where "f = (\<lambda>r. (req_addr r, misbehaving_entry (m_default_ban_time st) r))"
  have inv0: "ring_tracks C st0"
    unfolding st0_def using assms(5-7) by (rule ring_tracks_SetMisbehavingLimit)
  have st0: "m_banned_addrs st0 = []" "m_default_ban_time st0 = m_default_ban_time st"
    using assms(5) by (simp_all add: st0_def SetMisbehavingLimit_def)
  have disj: "req_addr ` set reqs \<inter> fst ` set (m_banned_addrs st0) = {}"
    by (simp add: st0)
  have pos: "\<forall>r \<in> set reqs. 0 < nBanUntil (misbehaving_entry (m_default_ban_time st0) r)"
    using assms(4) by (simp add: st0)
  from Ban_misbehaving_all_window [OF assms(1) inv0 assms(3) disj pos, of write_ok]
  obtain st' where run: "Ban_misbehaving_all write_ok reqs st0 = Inr st'"
    and inv: "ring_tracks C st'"
    and addrs: "m_banned_addrs st' = drop (length reqs - C) (map f reqs)"
    by (auto simp: st0 f_def)
  from assms(2) obtain r1 rest where reqs: "reqs = r1 # rest"
    by (cases reqs) auto
  with assms(2) addrs have table: "m_banned_addrs st' = map f rest"
    by simp
  from inv have sub: "m_banned_subnets st' = []"
    by (simp add: ring_tracks_def)
  from assms(3) reqs have d: "distinct (map req_addr rest)" and first: "req_addr r1 \<notin> req_addr ` set rest"
    by simp_all
  have keys: "fst \<circ> f = req_addr"
    by (auto simp: f_def)
  have gone: "map_of (m_banned_addrs st') (req_addr r1) = None"
    using first by (simp add: table map_of_eq_None_iff image_comp keys)
  have kept: "map_of (m_banned_addrs st') (req_addr r) = Some (snd (f r))" if "r \<in> set rest" for r
  proof (rule map_of_is_SomeI)
    show "distinct (map fst (m_banned_addrs st'))"
      using d by (simp add: table keys)
    show "(req_addr r, snd (f r)) \<in> set (m_banned_addrs st')"
      using that by (auto simp: table f_def)
  qed
  have "find_entry st' (SingleAddr (req_addr (hd reqs))) = None"
    using gone by (simp add: reqs find_entry_def)
  moreover have "\<forall>now. \<not> IsBanned contains now st' (req_addr (hd reqs))"
    using gone by (simp add: reqs IsBanned_no_subnets [OF sub])
  moreover have "\<forall>r \<in> set (tl reqs).
      find_entry st' (SingleAddr (req_addr r)) = Some (misbehaving_entry (m_default_ban_time st) r)
      \<and> (\<forall>now. IsBanned contains now st' (req_addr r)
                 \<longleftrightarrow> now < nBanUntil (misbehaving_entry (m_default_ban_time st) r))"
    using kept by (simp add: reqs find_entry_def IsBanned_no_subnets [OF sub] f_def)
  ultimately show ?thesis
    using run unfolding st0_def by blast
qed

theorem ring_overflow_evicts_oldest_witness:
  "Ban_misbehaving_all True three_requests (SetMisbehavingLimit 2 BanMan_idle)
     = Inr (BanMan_idle
              \<lparr>m_banned_addrs := [(20, ban_entry_of 1 61 BanReasonNodeMisbehaving),
                                  (30, ban_entry_of 2 62 BanReasonNodeMisbehaving)],
               m_misbehaving_addrs := \<lparr>cb_capacity = 2, cb_items = [20, 30]\<rparr>,
               m_is_dirty := True,
               ui_events := [BannedListChanged, BannedListChanged, BannedListChanged]\<rparr>)
   \<and> find_entry (BanMan_idle
              \<lparr>m_banned_addrs := [(20, ban_entry_of 1 61 BanReasonNodeMisbehaving),
                                  (30, ban_entry_of 2 62 BanReasonNodeMisbehaving)],
               m_misbehaving_addrs := \<lparr>cb_capacity = 2, cb_items = [20, 30]\<rparr>,
               m_is_dirty := True,
               ui_events := [BannedListChanged, BannedListChanged, BannedListChanged]\<rparr>)
         (SingleAddr 10) = None"
proof -
  have run: "Ban_misbehaving_all True three_requests (SetMisbehavingLimit 2 BanMan_idle)
     = Inr (BanMan_idle
              \<lparr>m_banned_addrs := [(20, ban_entry_of 1 61 BanReasonNodeMisbehaving),
                                  (30, ban_entry_of 2 62 BanReasonNodeMisbehaving)],
               m_misbehaving_addrs := \<lparr>cb_capacity = 2, cb_items = [20, 30]\<rparr>,
               m_is_dirty := True,
               ui_events := [BannedListChanged, BannedListChanged, BannedListChanged]\<rparr>)"
    by (simp add: three_requests_def Ban_addr_def Ban_def Ban_locked_def
        Ban_misbehaving_limit_def assign_entry_def index_entry_def entry_at_def CBanEntry_null_def
        ban_until_def int64_wrap_def SetMisbehavingLimit_def cb_set_capacity_def cb_full_def cb_push_back_def
        BannedListChanged_signal_def BanMan_idle_def ban_entry_of_def Let_def)
  have pre: "0 < (2::nat)" "length three_requests = Suc 2" "distinct (map req_addr three_requests)"
    "\<forall>r \<in> set three_requests. 0 < nBanUntil (misbehaving_entry (m_default_ban_time BanMan_idle) r)"
    "m_banned_addrs BanMan_idle = []" "m_banned_subnets BanMan_idle = []"
    "cb_items (m_misbehaving_addrs BanMan_idle) = []"
    by (simp_all add: three_requests_def misbehaving_entry_def ban_until_def int64_wrap_def BanMan_idle_def)
  from ring_overflow_evicts_oldest [OF pre, of True any_range] run
  show ?thesis by (simp add: three_requests_def)
qed

text \<open>
  The claim as the spec words it fails on three inputs. A capacity of 0 means no limit
  (\<^verbatim>\<open>if (m_misbehaving_addrs.capacity())\<close>, line 180): after \<open>C + 1 = 1\<close> misbehaviour
  ban the first address still has its entry and is banned. With capacity 1, two bans
  whose \<open>nBanUntil\<close> is not positive do not apply (line 179): the second address is not
  banned. And with capacity 1, two bans for absolute times that have passed apply, and
  the second address has its entry and is not banned at the time of its ban.
\<close>

theorem ring_overflow_claim_counterexample:
  "Ban_misbehaving_all True
     [\<lparr>req_addr = 10, req_offset = 60, req_since_epoch = False, req_time = 0\<rparr>]
     (SetMisbehavingLimit 0 BanMan_idle) = Inr BanMan_first_ban_kept
   \<and> find_entry BanMan_first_ban_kept (SingleAddr 10)
       = Some (ban_entry_of 0 60 BanReasonNodeMisbehaving)
   \<and> IsBanned any_range 1 BanMan_first_ban_kept 10
   \<and> Ban_misbehaving_all True two_requests_not_applied
         (SetMisbehavingLimit 1 (BanMan_idle\<lparr>m_default_ban_time := - 100\<rparr>))
       = Inr BanMan_none_applied
   \<and> \<not> IsBanned any_range 51 BanMan_none_applied 20
   \<and> Ban_misbehaving_all True two_requests_in_the_past (SetMisbehavingLimit 1 BanMan_idle)
       = Inr BanMan_second_ran_out
   \<and> find_entry BanMan_second_ran_out (SingleAddr 20)
       = Some (ban_entry_of 101 7 BanReasonNodeMisbehaving)
   \<and> \<not> IsBanned any_range 101 BanMan_second_ran_out 20"
  by (simp add: Ban_addr_def Ban_def Ban_locked_def Ban_misbehaving_limit_def assign_entry_def
      index_entry_def entry_at_def CBanEntry_null_def ban_until_def int64_wrap_def
      SetMisbehavingLimit_def cb_set_capacity_def cb_full_def cb_push_back_def
      BannedListChanged_signal_def BanMan_idle_def BanMan_first_ban_kept_def
      two_requests_not_applied_def BanMan_none_applied_def two_requests_in_the_past_def
      BanMan_second_ran_out_def ban_entry_of_def find_entry_def IsBanned_def Let_def)

end
